theory Spec2Isabelle
  imports Main
begin

section \<open>JavaScript collections in insertion order\<close>

text \<open>
  A JavaScript \<^verbatim>\<open>Set<T>\<close> iterates its members in insertion order and holds each member
  once. It is modelled as the list of its members, oldest first. The operations below keep
  such a list free of duplicates (lemmas \<open>distinct_set_add\<close>, \<open>distinct_set_delete\<close>).
  Items are the values of the TypeScript type \<^verbatim>\<open>T\<close>; \<^verbatim>\<open>undefined\<close> is not one of them, so
  \<^verbatim>\<open>values().next().value\<close> is \<^verbatim>\<open>undefined\<close> exactly when the set is empty.
\<close>

type_synonym 'a js_set = "'a list"

definition set_has :: "'a \<Rightarrow> 'a js_set \<Rightarrow> bool" where
  "set_has x xs = (x \<in> set xs)"

definition set_add :: "'a \<Rightarrow> 'a js_set \<Rightarrow> 'a js_set" where
  "set_add x xs = (if set_has x xs then xs else xs @ [x])"

text \<open>\<^verbatim>\<open>Set.prototype.delete\<close> returns whether the member was there.\<close>

definition set_delete :: "'a \<Rightarrow> 'a js_set \<Rightarrow> bool \<times> 'a js_set" where
  "set_delete x xs = (set_has x xs, removeAll x xs)"

text \<open>\<^verbatim>\<open>values().next().value\<close>: the oldest member, \<open>None\<close> for \<^verbatim>\<open>undefined\<close>.\<close>

definition set_first :: "'a js_set \<Rightarrow> 'a option" where
  "set_first xs = (case xs of [] \<Rightarrow> None | x # _ \<Rightarrow> Some x)"

text \<open>\<^verbatim>\<open>new Set(array)\<close>: the members of the array, each at its first occurrence.\<close>

definition set_of_array :: "'a list \<Rightarrow> 'a js_set" where
  "set_of_array xs = foldl (\<lambda>s x. set_add x s) [] xs"

section \<open>FifoSet (fifo-set.ts)\<close>

text \<open>
  The class has two fields: the set of items and the capacity given to the constructor.
  The capacity is a JavaScript number that the constructor does not check; the model takes
  any integer. The default value 100 of the parameter is left to the caller: the
  constructor and \<open>deserialize\<close> of the model always take the capacity.
\<close>

record 'a FifoSet =
  items :: "'a js_set"
  maxCapacity :: int

definition new_FifoSet :: "int \<Rightarrow> 'a FifoSet" where
  "new_FifoSet c = \<lparr>items = [], maxCapacity = c\<rparr>"

text \<open>
  \<^verbatim>\<open>add\<close>: an item that is already a member changes nothing and gives \<^verbatim>\<open>false\<close>. Otherwise,
  when \<^verbatim>\<open>size >= maxCapacity\<close>, the first member of the set is deleted unless the set has none
  (\<^verbatim>\<open>oldestItem !== undefined\<close>); then the item is added at the end and the result is \<^verbatim>\<open>true\<close>.
\<close>

definition add :: "'a \<Rightarrow> 'a FifoSet \<Rightarrow> bool \<times> 'a FifoSet" where
  "add item s =
     (if set_has item (items s) then (False, s)
      else
        let kept =
          (if maxCapacity s \<le> int (length (items s))
           then (case set_first (items s) of
                   None \<Rightarrow> items s
                 | Some oldestItem \<Rightarrow> snd (set_delete oldestItem (items s)))
           else items s)
        in (True, s\<lparr>items := set_add item kept\<rparr>))"

definition has :: "'a \<Rightarrow> 'a FifoSet \<Rightarrow> bool" where
  "has item s = set_has item (items s)"

definition delete :: "'a \<Rightarrow> 'a FifoSet \<Rightarrow> bool \<times> 'a FifoSet" where
  "delete item s =
     (let (r, xs) = set_delete item (items s) in (r, s\<lparr>items := xs\<rparr>))"

definition clear :: "'a FifoSet \<Rightarrow> 'a FifoSet" where
  "clear s = s\<lparr>items := []\<rparr>"

definition size_of :: "'a FifoSet \<Rightarrow> nat" where
  "size_of s = length (items s)"

definition capacity :: "'a FifoSet \<Rightarrow> int" where
  "capacity s = maxCapacity s"

definition serialize :: "'a FifoSet \<Rightarrow> 'a list" where
  "serialize s = items s"

text \<open>The loop of \<^verbatim>\<open>deserialize\<close>: \<^verbatim>\<open>for (const item of items) fifoSet.add(item)\<close>.\<close>

fun add_each :: "'a list \<Rightarrow> 'a FifoSet \<Rightarrow> 'a FifoSet" where
  "add_each [] s = s"
| "add_each (item # rest) s = add_each rest (snd (add item s))"

definition deserialize :: "'a list \<Rightarrow> int \<Rightarrow> 'a FifoSet" where
  "deserialize xs c = add_each xs (new_FifoSet c)"

text \<open>Sequences of calls on one FifoSet.\<close>

datatype 'a fifo_op = Add 'a | Delete 'a | Clear

fun apply_op :: "'a fifo_op \<Rightarrow> 'a FifoSet \<Rightarrow> 'a FifoSet" where
  "apply_op (Add x) s = snd (add x s)"
| "apply_op (Delete x) s = snd (delete x s)"
| "apply_op Clear s = clear s"

fun apply_ops :: "'a fifo_op list \<Rightarrow> 'a FifoSet \<Rightarrow> 'a FifoSet" where
  "apply_ops [] s = s"
| "apply_ops (p # ps) s = apply_ops ps (apply_op p s)"

text \<open>The last \<open>n\<close> elements of a sequence, in their order.\<close>

definition last_n :: "nat \<Rightarrow> 'a list \<Rightarrow> 'a list" where
  "last_n n xs = drop (length xs - n) xs"

text \<open>The invariant of a FifoSet: each member once, and no more members than the capacity.\<close>

definition fifo_inv :: "'a FifoSet \<Rightarrow> bool" where
  "fifo_inv s = (distinct (items s) \<and> int (length (items s)) \<le> maxCapacity s)"

section \<open>Strings\<close>

text \<open>
  A string is the sequence of the bytes of its UTF-8 text. The identifiers of the program
  (wallet addresses, subreddit names) and the URLs are ASCII; on ASCII text
  \<^verbatim>\<open>String.prototype.toLowerCase\<close> maps \<^verbatim>\<open>A\<close>..\<^verbatim>\<open>Z\<close> to \<^verbatim>\<open>a\<close>..\<^verbatim>\<open>z\<close> and keeps every other
  character. Bytes from 128 on are kept as they are.
\<close>

definition lower_char :: "char \<Rightarrow> char" where
  "lower_char c =
     (if 65 \<le> (of_char c :: nat) \<and> (of_char c :: nat) \<le> 90
      then char_of ((of_char c :: nat) + 32) else c)"

definition toLowerCase :: "string \<Rightarrow> string" where
  "toLowerCase s = map lower_char s"

text \<open>A string is truthy when it is not empty.\<close>

definition truthy :: "string \<Rightarrow> bool" where
  "truthy s = (s \<noteq> [])"

section \<open>reddit-service.ts\<close>

text \<open>
  \<^verbatim>\<open>new Date(d).toUTCString()\<close> belongs to the JavaScript runtime; the formatting functions
  take it as the parameter \<open>toUTCString\<close>. An absent \<^verbatim>\<open>pubDate\<close> is \<open>None\<close>.
\<close>

record RedditPost =
  post_id :: string
  title :: string
  link :: string
  contentSnippet :: string
  pubDate :: "string option"
  author :: string

subsection \<open>The pattern of \<^verbatim>\<open>trimRedditUrl\<close>\<close>

text \<open>
  The regular expression is
  \<^verbatim>\<open>^(https?:\/\/(?:\w+\.)?reddit\.com\/r\/\w+\/comments\/\w+)\/.*\<close>
  Each piece of the pattern is a matcher that takes the matcher of what follows it (\<open>k\<close>)
  and the text still to be read, and gives the text left after group 1, the first one in
  the order in which a backtracking matcher tries the alternatives: a greedy \<^verbatim>\<open>\w+\<close> first
  takes the longest run of word characters and then gives characters back, an optional
  group is tried before it is skipped. The final \<^verbatim>\<open>.*\<close> matches the empty text at least,
  and nothing anchors the end of the pattern.
\<close>

type_synonym matcher = "string \<Rightarrow> string option"

text \<open>\<^verbatim>\<open>\w\<close> without the \<^verbatim>\<open>u\<close> and \<^verbatim>\<open>i\<close> flags: \<^verbatim>\<open>[A-Za-z0-9_]\<close>.\<close>

definition is_word_char :: "char \<Rightarrow> bool" where
  "is_word_char c =
     (c \<in> set ''abcdefghijklmnopqrstuvwxyzABCDEFGHIJKLMNOPQRSTUVWXYZ0123456789_'')"

fun lit :: "string \<Rightarrow> matcher \<Rightarrow> matcher" where
  "lit [] k s = k s"
| "lit (p # ps) k [] = None"
| "lit (p # ps) k (c # cs) = (if p = c then lit ps k cs else None)"

definition optional :: "(matcher \<Rightarrow> matcher) \<Rightarrow> matcher \<Rightarrow> matcher" where
  "optional a k s = (case a k s of Some r \<Rightarrow> Some r | None \<Rightarrow> k s)"

fun word_run :: "nat \<Rightarrow> matcher \<Rightarrow> matcher" where
  "word_run 0 k s = None"
| "word_run (Suc n) k s =
     (case k (drop (Suc n) s) of Some r \<Rightarrow> Some r | None \<Rightarrow> word_run n k s)"

definition word_plus :: "matcher \<Rightarrow> matcher" where
  "word_plus k s = word_run (length (takeWhile is_word_char s)) k s"

text \<open>The end of group 1: a \<^verbatim>\<open>/\<close> must follow, and the text left is the one before it.\<close>

definition group_end :: matcher where
  "group_end s = (case s of [] \<Rightarrow> None | c # _ \<Rightarrow> if c = CHR ''/'' then Some s else None)"

definition redditUrlPattern :: matcher where
  "redditUrlPattern =
     lit ''http'' (optional (lit ''s'') (lit ''://''
       (optional (\<lambda>k. word_plus (lit ''.'' k))
         (lit ''reddit.com/r/'' (word_plus (lit ''/comments/'' (word_plus group_end)))))))"

text \<open>\<^verbatim>\<open>match[1]\<close> is the text of group 1: the URL without what is left after the group.\<close>

definition trimRedditUrl :: "string \<Rightarrow> string" where
  "trimRedditUrl url =
     (case redditUrlPattern url of
        Some rest \<Rightarrow> take (length url - length rest) url
      | None \<Rightarrow> url)"

subsection \<open>formatRedditPost\<close>

text \<open>The three symbols of the message, as UTF-8: a newspaper, a link, an alarm clock.\<close>

definition newspaper :: string where
  "newspaper = [CHR 0xF0, CHR 0x9F, CHR 0x93, CHR 0xB0]"

definition link_symbol :: string where
  "link_symbol = [CHR 0xF0, CHR 0x9F, CHR 0x94, CHR 0x97]"

definition alarm_clock :: string where
  "alarm_clock = [CHR 0xE2, CHR 0x8F, CHR 0xB0]"

definition newline :: string where
  "newline = [CHR 0x0A]"

definition published :: "(string \<Rightarrow> string) \<Rightarrow> RedditPost \<Rightarrow> string" where
  "published toUTCString post =
     (case pubDate post of
        None \<Rightarrow> []
      | Some d \<Rightarrow> if truthy d then alarm_clock @ '' Published: '' @ toUTCString d else [])"

text \<open>The function of reddit-service.ts, the one ConversationManager imports.\<close>

definition formatRedditPost :: "(string \<Rightarrow> string) \<Rightarrow> RedditPost \<Rightarrow> string" where
  "formatRedditPost toUTCString post =
     (let trimmedLink = trimRedditUrl (link post)
      in newspaper @ '' '' @ title post @ newline
         @ link_symbol @ '' Link: '' @ trimmedLink @ newline
         @ published toUTCString post)"

text \<open>The copy of the function at the end of conversation-manager.ts.\<close>

definition formatRedditPost_copy :: "(string \<Rightarrow> string) \<Rightarrow> RedditPost \<Rightarrow> string" where
  "formatRedditPost_copy toUTCString post =
     newspaper @ '' '' @ title post @ newline
     @ link_symbol @ '' Link: '' @ link post @ newline
     @ published toUTCString post"

section \<open>conversation-manager.ts\<close>

subsection \<open>Maps in insertion order\<close>

text \<open>
  A JavaScript \<^verbatim>\<open>Map\<close> iterates its entries in the order in which the keys were first set;
  \<^verbatim>\<open>set\<close> on a key of the map replaces the value where the entry stands.
\<close>

type_synonym ('k, 'v) js_map = "('k \<times> 'v) list"

definition map_get :: "'k \<Rightarrow> ('k, 'v) js_map \<Rightarrow> 'v option" where
  "map_get k m = map_of m k"

definition map_has :: "'k \<Rightarrow> ('k, 'v) js_map \<Rightarrow> bool" where
  "map_has k m = (map_get k m \<noteq> None)"

fun map_set :: "'k \<Rightarrow> 'v \<Rightarrow> ('k, 'v) js_map \<Rightarrow> ('k, 'v) js_map" where
  "map_set k v [] = [(k, v)]"
| "map_set k v (e # m) = (if fst e = k then (k, v) # m else e # map_set k v m)"

definition map_delete :: "'k \<Rightarrow> ('k, 'v) js_map \<Rightarrow> ('k, 'v) js_map" where
  "map_delete k m = filter (\<lambda>e. fst e \<noteq> k) m"

subsection \<open>The data file\<close>

text \<open>
  \<^verbatim>\<open>UserData\<close> is the document of the data file. The loader tests each of the two fields
  before it reads it, so a field may be absent (\<open>None\<close>). An object is the list of its
  entries in the order of \<^verbatim>\<open>Object.entries\<close>. The value of an entry is an array of strings,
  as the type \<^verbatim>\<open>UserData\<close> says, or, in a file that the program did not write, \<^verbatim>\<open>null\<close>, or
  another value that is not an array (\<open>Other\<close>: a number, a boolean, an object). A string
  value is iterated character by character, and stands here as the array of its
  characters; the elements of an array are taken to be strings. The two constructions that
  the loader applies to the value treat \<^verbatim>\<open>null\<close> and \<open>Other\<close> differently:

    \<^item> \<^verbatim>\<open>new Set(v)\<close> is the empty set for \<^verbatim>\<open>null\<close>, and throws a \<^verbatim>\<open>TypeError\<close> for \<open>Other\<close>;

    \<^item> \<^verbatim>\<open>for (const item of v)\<close> throws a \<^verbatim>\<open>TypeError\<close> for \<^verbatim>\<open>null\<close> and for \<open>Other\<close>.
\<close>

datatype entry_value = Strings "string list" | Null | Other

record UserData =
  subscriptions :: "(string \<times> entry_value) list option"
  seenPosts :: "(string \<times> entry_value) list option"

text \<open>
  The text of a file makes \<^verbatim>\<open>JSON.parse\<close> throw, or is the JSON text \<^verbatim>\<open>null\<close>, or is the JSON
  text of a document. The data directory can be missing, or be there without the file, or
  hold the file.
\<close>

datatype file_text = Unparsable | JsonNull | Json UserData

datatype file_system = NoDirectory | NoFile | File file_text

datatype exn = IOError | SyntaxError | TypeError | TransportError

definition existsSync_dir :: "file_system \<Rightarrow> bool" where
  "existsSync_dir fs = (fs \<noteq> NoDirectory)"

definition existsSync_file :: "file_system \<Rightarrow> bool" where
  "existsSync_file fs = (case fs of File _ \<Rightarrow> True | _ \<Rightarrow> False)"

text \<open>
  Each call of the file system succeeds or throws; \<open>ok\<close> says which, and is the
  environment's choice. Writing a file needs its directory.
\<close>

definition mkdirSync :: "bool \<Rightarrow> file_system \<Rightarrow> exn + file_system" where
  "mkdirSync ok fs =
     (if ok then Inr (if fs = NoDirectory then NoFile else fs) else Inl IOError)"

definition writeFileSync :: "bool \<Rightarrow> file_text \<Rightarrow> file_system \<Rightarrow> exn + file_system" where
  "writeFileSync ok content fs =
     (if ok \<and> fs \<noteq> NoDirectory then Inr (File content) else Inl IOError)"

definition readFileSync :: "bool \<Rightarrow> file_system \<Rightarrow> exn + file_text" where
  "readFileSync ok fs =
     (case fs of File content \<Rightarrow> if ok then Inr content else Inl IOError | _ \<Rightarrow> Inl IOError)"

text \<open>\<^verbatim>\<open>JSON.parse\<close> gives \<^verbatim>\<open>null\<close> (\<open>None\<close>) for the text \<^verbatim>\<open>null\<close>.\<close>

definition JSON_parse :: "file_text \<Rightarrow> exn + UserData option" where
  "JSON_parse content =
     (case content of
        Unparsable \<Rightarrow> Inl SyntaxError
      | JsonNull \<Rightarrow> Inr None
      | Json d \<Rightarrow> Inr (Some d))"

definition JSON_stringify :: "UserData \<Rightarrow> file_text" where
  "JSON_stringify d = Json d"

subsection \<open>The state of a ConversationManager\<close>

text \<open>The lines the class writes to the console.\<close>

datatype log_entry =
    Loaded nat nat
  | LoadFailed exn
  | SaveFailed exn
  | Subscribed string string
  | Unsubscribed string string
  | UnsubscribedAll string nat
  | NoSubscribers string
  | Sending nat
  | MessageSent string
  | SendFailed
  | AddressFailed
  | SendComplete nat nat

text \<open>
  The two maps of the class, and what the class acts on: the data file, the console, and
  the messages that conversations have accepted (address and text).
\<close>

record manager =
  seenPostsBySubreddit :: "(string, string FifoSet) js_map"
  userSubscriptions :: "(string, string js_set) js_map"
  disk :: file_system
  console :: "log_entry list"
  outbox :: "(string \<times> string) list"

definition say :: "log_entry \<Rightarrow> manager \<Rightarrow> manager" where
  "say e m = m\<lparr>console := console m @ [e]\<rparr>"

text \<open>The outcomes of the three file system calls of \<^verbatim>\<open>loadUserData\<close>.\<close>

record load_io =
  mkdir_ok :: bool
  write_ok :: bool
  read_ok :: bool

subsection \<open>loadUserData and saveUserData\<close>

definition initialData :: UserData where
  "initialData = \<lparr>subscriptions = Some [], seenPosts = Some []\<rparr>"

text \<open>
  The two \<^verbatim>\<open>forEach\<close> loops of the loader. An entry on whose value \<^verbatim>\<open>new Set\<close>, or the
  \<^verbatim>\<open>for\<close> loop of \<^verbatim>\<open>FifoSet.deserialize\<close>, throws ends the loop; the entries before it have
  been put into the map by then. A subscriber whose value is \<^verbatim>\<open>null\<close> gets the empty set.
\<close>

fun load_subscriptions :: "(string \<times> entry_value) list \<Rightarrow> manager \<Rightarrow> exn option \<times> manager" where
  "load_subscriptions [] m = (None, m)"
| "load_subscriptions ((address, subreddits) # rest) m =
     (let lowerAddress = toLowerCase address
      in case subreddits of
           Other \<Rightarrow> (Some TypeError, m)
         | Null \<Rightarrow>
             load_subscriptions rest
               (m\<lparr>userSubscriptions := map_set lowerAddress [] (userSubscriptions m)\<rparr>)
         | Strings topics \<Rightarrow>
             load_subscriptions rest
               (m\<lparr>userSubscriptions :=
                    map_set lowerAddress (set_of_array topics) (userSubscriptions m)\<rparr>))"

fun load_seenPosts :: "(string \<times> entry_value) list \<Rightarrow> manager \<Rightarrow> exn option \<times> manager" where
  "load_seenPosts [] m = (None, m)"
| "load_seenPosts ((subreddit, postIds) # rest) m =
     (let normalizedSubreddit = toLowerCase subreddit
      in case postIds of
           Other \<Rightarrow> (Some TypeError, m)
         | Null \<Rightarrow> (Some TypeError, m)
         | Strings ids \<Rightarrow>
             load_seenPosts rest
               (m\<lparr>seenPostsBySubreddit :=
                    map_set normalizedSubreddit (deserialize ids 1000)
                      (seenPostsBySubreddit m)\<rparr>))"

text \<open>
  A statement gives the exception it throws, if any, and the state it leaves;
  \<open>and_then\<close> runs the statements that follow when none was thrown.
\<close>

definition and_then ::
  "exn option \<times> manager \<Rightarrow> (manager \<Rightarrow> exn option \<times> manager) \<Rightarrow> exn option \<times> manager" where
  "and_then r f = (case r of (Some e, m) \<Rightarrow> (Some e, m) | (None, m) \<Rightarrow> f m)"

text \<open>
  The body of the \<^verbatim>\<open>try\<close> block of \<^verbatim>\<open>loadUserData\<close>. Reading \<^verbatim>\<open>data.subscriptions\<close> throws a
  \<^verbatim>\<open>TypeError\<close> when \<^verbatim>\<open>data\<close> is \<^verbatim>\<open>null\<close>.
\<close>

definition loadUserData_try :: "load_io \<Rightarrow> manager \<Rightarrow> exn option \<times> manager" where
  "loadUserData_try io m =
     (case (if \<not> existsSync_dir (disk m) then mkdirSync (mkdir_ok io) (disk m)
            else Inr (disk m)) of
        Inl e \<Rightarrow> (Some e, m)
      | Inr fs1 \<Rightarrow>
          let m1 = m\<lparr>disk := fs1\<rparr> in
          if \<not> existsSync_file (disk m1) then
            (case writeFileSync (write_ok io) (JSON_stringify initialData) (disk m1) of
               Inl e \<Rightarrow> (Some e, m1)
             | Inr fs2 \<Rightarrow> (None, m1\<lparr>disk := fs2\<rparr>))
          else
            (case readFileSync (read_ok io) (disk m1) of
               Inl e \<Rightarrow> (Some e, m1)
             | Inr content \<Rightarrow>
                 (case JSON_parse content of
                    Inl e \<Rightarrow> (Some e, m1)
                  | Inr None \<Rightarrow> (Some TypeError, m1)
                  | Inr (Some data) \<Rightarrow>
                      and_then
                        (case subscriptions data of
                           None \<Rightarrow> (None, m1)
                         | Some entries \<Rightarrow> load_subscriptions entries m1)
                        (\<lambda>m2. and_then
                           (case seenPosts data of
                              None \<Rightarrow> (None, m2)
                            | Some entries \<Rightarrow> load_seenPosts entries m2)
                           (\<lambda>m3. (None, say (Loaded (length (userSubscriptions m3))
                                             (length (seenPostsBySubreddit m3))) m3))))))"

text \<open>
  \<^verbatim>\<open>loadUserData\<close> catches whatever the body throws and writes it to the console. The
  result is \<open>Inl\<close> for an exception that reaches the caller.
\<close>

definition loadUserData :: "load_io \<Rightarrow> manager \<Rightarrow> exn + manager" where
  "loadUserData io m =
     (case loadUserData_try io m of
        (None, m') \<Rightarrow> Inr m'
      | (Some e, m') \<Rightarrow> Inr (say (LoadFailed e) m'))"

text \<open>The constructor: two empty maps, then \<^verbatim>\<open>loadUserData\<close>.\<close>

definition new_ConversationManager :: "load_io \<Rightarrow> file_system \<Rightarrow> exn + manager" where
  "new_ConversationManager io fs =
     loadUserData io
       \<lparr>seenPostsBySubreddit = [], userSubscriptions = [], disk = fs, console = [], outbox = []\<rparr>"

text \<open>The document that \<^verbatim>\<open>saveUserData\<close> builds from the two maps.\<close>

definition snapshot :: "manager \<Rightarrow> UserData" where
  "snapshot m =
     \<lparr>subscriptions = Some (map (\<lambda>(address, subreddits). (address, Strings subreddits))
                               (userSubscriptions m)),
      seenPosts = Some (map (\<lambda>(subreddit, fifoSet). (subreddit, Strings (serialize fifoSet)))
                          (seenPostsBySubreddit m))\<rparr>"

definition saveUserData :: "bool \<Rightarrow> manager \<Rightarrow> manager" where
  "saveUserData ok m =
     (case writeFileSync ok (JSON_stringify (snapshot m)) (disk m) of
        Inr fs \<Rightarrow> m\<lparr>disk := fs\<rparr>
      | Inl e \<Rightarrow> say (SaveFailed e) m)"

subsection \<open>Subscriptions\<close>

definition unsubscribeFromAllSubreddits :: "bool \<Rightarrow> string \<Rightarrow> manager \<Rightarrow> bool \<times> manager" where
  "unsubscribeFromAllSubreddits ok address m =
     (let lowerCaseAddress = toLowerCase address in
      case map_get lowerCaseAddress (userSubscriptions m) of
        None \<Rightarrow> (False, m)
      | Some userSubs \<Rightarrow>
          if length userSubs = 0 then (False, m)
          else
            let subredditCount = length userSubs;
                m1 = m\<lparr>userSubscriptions := map_delete lowerCaseAddress (userSubscriptions m)\<rparr>;
                m2 = saveUserData ok m1
            in (True, say (UnsubscribedAll address subredditCount) m2))"

text \<open>
  \<^verbatim>\<open>subscribeToSubreddit\<close> first gives the address an empty set when the map has none; the
  set it then reads is the one of the map, and adding to it changes the entry of the map.
\<close>

definition subscribeToSubreddit :: "bool \<Rightarrow> string \<Rightarrow> string \<Rightarrow> manager \<Rightarrow> bool \<times> manager" where
  "subscribeToSubreddit ok address subreddit m =
     (let lowerCaseAddress = toLowerCase address;
          normalizedSubreddit = toLowerCase subreddit;
          m1 = (if \<not> map_has lowerCaseAddress (userSubscriptions m)
                then m\<lparr>userSubscriptions := map_set lowerCaseAddress [] (userSubscriptions m)\<rparr>
                else m);
          userSubs = (case map_get lowerCaseAddress (userSubscriptions m1) of
                        Some s \<Rightarrow> s | None \<Rightarrow> [])
      in if set_has normalizedSubreddit userSubs then (False, m1)
         else
           let m2 = m1\<lparr>userSubscriptions :=
                         map_set lowerCaseAddress (set_add normalizedSubreddit userSubs)
                           (userSubscriptions m1)\<rparr>;
               m3 = saveUserData ok m2
           in (True, say (Subscribed address subreddit) m3))"

definition unsubscribeFromSubreddit :: "bool \<Rightarrow> string \<Rightarrow> string \<Rightarrow> manager \<Rightarrow> bool \<times> manager" where
  "unsubscribeFromSubreddit ok address subreddit m =
     (let lowerCaseAddress = toLowerCase address;
          normalizedSubreddit = toLowerCase subreddit
      in case map_get lowerCaseAddress (userSubscriptions m) of
           None \<Rightarrow> (False, m)
         | Some userSubs \<Rightarrow>
             if \<not> set_has normalizedSubreddit userSubs then (False, m)
             else
               let userSubs' = snd (set_delete normalizedSubreddit userSubs);
                   m1 = m\<lparr>userSubscriptions :=
                             map_set lowerCaseAddress userSubs' (userSubscriptions m)\<rparr>;
                   m2 = (if length userSubs' = 0
                         then m1\<lparr>userSubscriptions :=
                                   map_delete lowerCaseAddress (userSubscriptions m1)\<rparr>
                         else m1);
                   m3 = saveUserData ok m2
               in (True, say (Unsubscribed address subreddit) m3))"

definition getUserSubscriptions :: "string \<Rightarrow> manager \<Rightarrow> string list" where
  "getUserSubscriptions address m =
     (case map_get (toLowerCase address) (userSubscriptions m) of
        Some userSubs \<Rightarrow> userSubs
      | None \<Rightarrow> [])"

definition getAllSubscribedSubreddits :: "manager \<Rightarrow> string list" where
  "getAllSubscribedSubreddits m =
     foldl (\<lambda>allSubs (address, userSubs). foldl (\<lambda>s sub. set_add sub s) allSubs userSubs)
       [] (userSubscriptions m)"

definition getSubscribersForSubreddit :: "string \<Rightarrow> manager \<Rightarrow> string list" where
  "getSubscribersForSubreddit subreddit m =
     (let normalizedSubreddit = toLowerCase subreddit
      in map fst (filter (\<lambda>(address, userSubs). set_has normalizedSubreddit userSubs)
                    (userSubscriptions m)))"

subsection \<open>Sending\<close>

text \<open>
  What the XMTP client answers: the list of conversations (or \<open>None\<close> when listing them
  throws), and for each conversation its peer address, what the inbox state gives for it,
  and whether \<^verbatim>\<open>send\<close> succeeds.
\<close>

datatype inbox_state = InboxThrows | InboxIdentifier "string option"

record conversation =
  peerAddress :: "string option"
  inboxState :: inbox_state
  send_ok :: bool

record client =
  conversations_list :: "conversation list option"

definition getAddressFromConversation :: "conversation \<Rightarrow> string \<times> log_entry list" where
  "getAddressFromConversation c =
     (case (case peerAddress c of Some a \<Rightarrow> if truthy a then Some a else None | None \<Rightarrow> None) of
        Some a \<Rightarrow> (a, [])
      | None \<Rightarrow>
          (case inboxState c of
             InboxThrows \<Rightarrow> (''unknown-address'', [AddressFailed])
           | InboxIdentifier None \<Rightarrow> (''unknown-address'', [])
           | InboxIdentifier (Some i) \<Rightarrow> if truthy i then (i, []) else (''unknown-address'', [])))"

text \<open>The loop over the conversations, with its two counters.\<close>

fun send_loop ::
  "string \<Rightarrow> string list \<Rightarrow> conversation list \<Rightarrow> nat \<times> nat \<times> manager \<Rightarrow> nat \<times> nat \<times> manager" where
  "send_loop message addresses [] acc = acc"
| "send_loop message addresses (c # cs) (sentCount, skippedCount, m) =
     (let (address, logged) = getAddressFromConversation c;
          m1 = m\<lparr>console := console m @ logged\<rparr>
      in if toLowerCase address \<notin> set addresses
         then send_loop message addresses cs (sentCount, skippedCount + 1, m1)
         else if send_ok c
         then send_loop message addresses cs
                (sentCount + 1, skippedCount,
                 say (MessageSent address) (m1\<lparr>outbox := outbox m1 @ [(address, message)]\<rparr>))
         else send_loop message addresses cs (sentCount, skippedCount, say SendFailed m1))"

definition sendToSpecificAddresses ::
  "client \<Rightarrow> string \<Rightarrow> string list \<Rightarrow> manager \<Rightarrow> (exn + unit) \<times> manager" where
  "sendToSpecificAddresses cl message addresses m =
     (case conversations_list cl of
        None \<Rightarrow> (Inl TransportError, m)
      | Some conversations \<Rightarrow>
          let m1 = say (Sending (length addresses)) m;
              (sentCount, skippedCount, m2) = send_loop message addresses conversations (0, 0, m1)
          in (Inr (), say (SendComplete sentCount skippedCount) m2))"

text \<open>
  \<^verbatim>\<open>sendRedditPostToSubscribers\<close>: the result is \<open>Inr True\<close> for sent, \<open>Inr False\<close> for not
  sent, \<open>Inl\<close> when the promise is rejected.
\<close>

definition sendRedditPostToSubscribers ::
  "(string \<Rightarrow> string) \<Rightarrow> bool \<Rightarrow> client \<Rightarrow> RedditPost \<Rightarrow> string \<Rightarrow> manager
   \<Rightarrow> (exn + bool) \<times> manager" where
  "sendRedditPostToSubscribers toUTCString ok cl post subreddit m =
     (let normalizedSubreddit = toLowerCase subreddit;
          m1 = (if \<not> map_has normalizedSubreddit (seenPostsBySubreddit m)
                then m\<lparr>seenPostsBySubreddit :=
                         map_set normalizedSubreddit (new_FifoSet 50) (seenPostsBySubreddit m)\<rparr>
                else m);
          seen = (case map_get normalizedSubreddit (seenPostsBySubreddit m1) of
                    Some s \<Rightarrow> s | None \<Rightarrow> new_FifoSet 50)
      in if has (post_id post) seen then (Inr False, m1)
         else
           let m2 = m1\<lparr>seenPostsBySubreddit :=
                         map_set normalizedSubreddit (snd (add (post_id post) seen))
                           (seenPostsBySubreddit m1)\<rparr>;
               m3 = saveUserData ok m2;
               subscribers = getSubscribersForSubreddit subreddit m3
           in if length subscribers = 0 then (Inr False, say (NoSubscribers subreddit) m3)
              else
                let formattedPost = formatRedditPost toUTCString post
                in (case sendToSpecificAddresses cl formattedPost subscribers m3 of
                      (Inl e, m4) \<Rightarrow> (Inl e, m4)
                    | (Inr u, m4) \<Rightarrow> (Inr True, m4)))"

text \<open>
  Calls that change the subscriptions, each with the outcome of its save, and sequences of
  such calls.
\<close>

datatype registry_op =
    Subscribe bool string string
  | Unsubscribe bool string string
  | UnsubscribeAll bool string

fun registry_call :: "registry_op \<Rightarrow> manager \<Rightarrow> bool \<times> manager" where
  "registry_call (Subscribe ok a t) m = subscribeToSubreddit ok a t m"
| "registry_call (Unsubscribe ok a t) m = unsubscribeFromSubreddit ok a t m"
| "registry_call (UnsubscribeAll ok a) m = unsubscribeFromAllSubreddits ok a m"

fun registry_steps :: "registry_op list \<Rightarrow> manager \<Rightarrow> manager" where
  "registry_steps [] m = m"
| "registry_steps (p # ps) m = registry_steps ps (snd (registry_call p m))"

text \<open>The same call with another outcome of its save.\<close>

fun with_save :: "bool \<Rightarrow> registry_op \<Rightarrow> registry_op" where
  "with_save ok (Subscribe _ a t) = Subscribe ok a t"
| "with_save ok (Unsubscribe _ a t) = Unsubscribe ok a t"
| "with_save ok (UnsubscribeAll _ a) = UnsubscribeAll ok a"

text \<open>What is stored in the two maps.\<close>

definition memory ::
  "manager \<Rightarrow> (string, string js_set) js_map \<times> (string, string FifoSet) js_map" where
  "memory m = (userSubscriptions m, seenPostsBySubreddit m)"

text \<open>An identifier is in lower case when \<^verbatim>\<open>toLowerCase\<close> keeps it.\<close>

definition is_lower :: "string \<Rightarrow> bool" where
  "is_lower s = (toLowerCase s = s)"

text \<open>Every address and every topic of the subscriptions, and every topic of the seen posts, is in lower case.\<close>

definition stored_lowercase :: "manager \<Rightarrow> bool" where
  "stored_lowercase m =
     (list_all (\<lambda>(address, userSubs). is_lower address \<and> list_all is_lower userSubs)
        (userSubscriptions m)
      \<and> list_all (\<lambda>(subreddit, seen). is_lower subreddit) (seenPostsBySubreddit m))"

text \<open>The topics of the subscriptions of the document in the data file are in lower case.\<close>

definition topics_lowercase :: "file_system \<Rightarrow> bool" where
  "topics_lowercase fs =
     (case fs of
        File (Json d) \<Rightarrow>
          (case subscriptions d of
             Some entries \<Rightarrow>
               list_all (\<lambda>(address, v). case v of Strings topics \<Rightarrow> list_all is_lower topics
                                          | Null \<Rightarrow> True
                                          | Other \<Rightarrow> True) entries
           | None \<Rightarrow> True)
      | _ \<Rightarrow> True)"

text \<open>No subscriber is mapped to an empty set of topics.\<close>

definition no_empty_subscriber :: "manager \<Rightarrow> bool" where
  "no_empty_subscriber m = list_all (\<lambda>(address, userSubs). userSubs \<noteq> []) (userSubscriptions m)"

text \<open>
  Every subscriber of the document in the data file, if there is one, has a topic: its
  value is neither an empty array nor \<^verbatim>\<open>null\<close>.
\<close>

definition every_subscriber_has_topic :: "file_system \<Rightarrow> bool" where
  "every_subscriber_has_topic fs =
     (case fs of
        File (Json d) \<Rightarrow>
          (case subscriptions d of
             Some entries \<Rightarrow>
               list_all (\<lambda>(address, subreddits). subreddits \<noteq> Strings [] \<and> subreddits \<noteq> Null)
                 entries
           | None \<Rightarrow> True)
      | _ \<Rightarrow> True)"

text \<open>What a matcher leaves is never empty and never longer than what it was given.\<close>

definition leaves_some :: "matcher \<Rightarrow> bool" where
  "leaves_some k = (\<forall>s r. k s = Some r \<longrightarrow> r \<noteq> [] \<and> length r \<le> length s)"

section \<open>Properties of the collections\<close>

lemma distinct_set_add: "distinct xs \<Longrightarrow> distinct (set_add x xs)"
  by (simp add: set_add_def set_has_def)

lemma distinct_set_delete: "distinct xs \<Longrightarrow> distinct (snd (set_delete x xs))"
  by (simp add: set_delete_def distinct_removeAll)

lemma distinct_set_of_array_aux:
  "distinct acc \<Longrightarrow> distinct (foldl (\<lambda>s x. set_add x s) acc xs)"
  by (induction xs arbitrary: acc) (simp_all add: distinct_set_add)

lemma distinct_set_of_array: "distinct (set_of_array xs)"
  by (simp add: set_of_array_def distinct_set_of_array_aux)

section \<open>Properties of FifoSet\<close>

lemma add_each_snoc: "add_each (xs @ [x]) s = snd (add x (add_each xs s))"
  by (induction xs arbitrary: s) simp_all

lemma maxCapacity_add [simp]: "maxCapacity (snd (add x s)) = maxCapacity s"
  by (simp add: add_def Let_def)

lemma maxCapacity_add_each [simp]: "maxCapacity (add_each xs s) = maxCapacity s"
  by (induction xs arbitrary: s) simp_all

lemma distinct_add: "distinct (items s) \<Longrightarrow> distinct (items (snd (add x s)))"
  by (auto simp: add_def Let_def set_first_def distinct_set_add distinct_set_delete
      split: list.splits intro!: distinct_set_add)

lemma add_fresh_room:
  assumes "x \<notin> set (items s)" and "int (length (items s)) < maxCapacity s"
  shows "items (snd (add x s)) = items s @ [x]"
  using assms by (simp add: add_def Let_def set_has_def set_add_def)

lemma add_fresh_full:
  assumes "x \<notin> set (items s)" and "maxCapacity s \<le> int (length (items s))"
    and "items s = y # ys" and "distinct (items s)"
  shows "items (snd (add x s)) = ys @ [x]"
  using assms by (auto simp: add_def Let_def set_has_def set_add_def set_first_def set_delete_def)

lemma items_add_each_distinct:
  assumes "1 \<le> c" and "distinct xs"
  shows "items (add_each xs (new_FifoSet c)) = last_n (nat c) xs"
  using assms(2)
proof (induction xs rule: rev_induct)
  case Nil
  show ?case by (simp add: new_FifoSet_def last_n_def)
next
  case (snoc x xs)
  let ?s = "add_each xs (new_FifoSet c)"
  from snoc have IH: "items ?s = drop (length xs - nat c) xs" and d: "distinct xs"
    and fresh: "x \<notin> set xs"
    by (simp_all add: last_n_def)
  have cap: "maxCapacity ?s = c" by (simp add: new_FifoSet_def)
  have notin: "x \<notin> set (items ?s)"
    using fresh IH by (auto dest: in_set_dropD)
  show ?case
  proof (cases "length xs < nat c")
    case True
    then have "items ?s = xs" using IH by simp
    moreover have "int (length (items ?s)) < maxCapacity ?s"
      using True IH cap by simp
    ultimately have "items (snd (add x ?s)) = xs @ [x]"
      using add_fresh_room [OF notin] by simp
    then show ?thesis using True by (simp add: add_each_snoc last_n_def)
  next
    case False
    with assms(1) have len: "nat c \<le> length xs" "0 < nat c" by simp_all
    define k where "k = length xs - nat c"
    have klt: "k < length xs" using len by (simp add: k_def)
    have split: "drop k xs = xs ! k # drop (Suc k) xs"
      using klt by (simp add: Cons_nth_drop_Suc)
    have full: "maxCapacity ?s \<le> int (length (items ?s))"
      using IH cap len by simp
    have dist: "distinct (items ?s)" using IH d by simp
    have "items (snd (add x ?s)) = drop (Suc k) xs @ [x]"
      using add_fresh_full [OF notin full _ dist, of "xs ! k" "drop (Suc k) xs"] IH split
      by (simp add: k_def)
    moreover have "length (xs @ [x]) - nat c = Suc k"
      using len by (simp add: k_def)
    ultimately show ?thesis using klt by (simp add: add_each_snoc last_n_def)
  qed
qed

text \<open>
  C1. For a capacity \<open>C \<ge> 1\<close> and a sequence \<open>xs\<close> of more than \<open>C\<close> pairwise distinct
  items added in order to a new set of capacity \<open>C\<close>, the members are exactly the last \<open>C\<close>
  items of \<open>xs\<close>, and \<open>serialize\<close> lists them in their order in \<open>xs\<close>.
\<close>

theorem fifo_keeps_last_items:
  assumes "1 \<le> C" and "distinct xs" and "C < int (length xs)"
  shows "serialize (apply_ops (map Add xs) (new_FifoSet C)) = last_n (nat C) xs
       \<and> (\<forall>x. has x (apply_ops (map Add xs) (new_FifoSet C)) = (x \<in> set (last_n (nat C) xs)))
       \<and> size_of (apply_ops (map Add xs) (new_FifoSet C)) = nat C"
proof -
  have same: "apply_ops (map Add xs) s = add_each xs s" for s :: "'a FifoSet"
    by (induction xs arbitrary: s) simp_all
  have "items (add_each xs (new_FifoSet C)) = last_n (nat C) xs"
    using assms(1,2) by (rule items_add_each_distinct)
  moreover have "length (last_n (nat C) xs) = nat C"
    using assms(1,3) by (simp add: last_n_def)
  ultimately show ?thesis
    by (simp add: same serialize_def has_def set_has_def size_of_def)
qed

theorem fifo_keeps_last_items_witness:
  "serialize (apply_ops (map Add [''a'', ''b'', ''c'', ''d'', ''e'']) (new_FifoSet 2)) = [''d'', ''e'']
   \<and> has ''e'' (apply_ops (map Add [''a'', ''b'', ''c'', ''d'', ''e'']) (new_FifoSet 2))
   \<and> \<not> has ''c'' (apply_ops (map Add [''a'', ''b'', ''c'', ''d'', ''e'']) (new_FifoSet 2))
   \<and> size_of (apply_ops (map Add [''a'', ''b'', ''c'', ''d'', ''e'']) (new_FifoSet 2)) = 2"
  using fifo_keeps_last_items [of 2 "[''a'', ''b'', ''c'', ''d'', ''e'']"]
  by (simp add: last_n_def)

subsection \<open>The size bound, for capacities from 1\<close>

lemma add_member: "has x s \<Longrightarrow> add x s = (False, s)"
  by (simp add: add_def has_def)

lemma add_returns: "fst (add x s) = (\<not> has x s)"
  by (simp add: add_def has_def Let_def)

lemma has_after_add: "has x (snd (add x s))"
  by (simp add: add_def has_def Let_def set_add_def set_has_def)

lemma fifo_inv_add:
  assumes "fifo_inv s" and "1 \<le> maxCapacity s"
  shows "fifo_inv (snd (add x s))"
proof (cases "x \<in> set (items s)")
  case True
  then show ?thesis using assms(1) by (simp add: add_def set_has_def)
next
  case False
  show ?thesis
  proof (cases "int (length (items s)) < maxCapacity s")
    case True
    then show ?thesis
      using add_fresh_room [OF False True] assms(1) False by (simp add: fifo_inv_def)
  next
    case full: False
    then have le: "maxCapacity s \<le> int (length (items s))" by simp
    with assms(2) obtain y ys where ys: "items s = y # ys"
      by (cases "items s") auto
    have d: "distinct (items s)" using assms(1) by (simp add: fifo_inv_def)
    have "items (snd (add x s)) = ys @ [x]"
      by (rule add_fresh_full [OF False le ys d])
    then show ?thesis using assms(1) False ys by (simp add: fifo_inv_def)
  qed
qed

lemma fifo_inv_delete: "fifo_inv s \<Longrightarrow> fifo_inv (snd (delete x s))"
proof -
  assume a: "fifo_inv s"
  have "length (removeAll x (items s)) \<le> length (items s)"
    by (simp add: removeAll_filter_not_eq)
  then have "int (length (removeAll x (items s))) \<le> maxCapacity s"
    using a unfolding fifo_inv_def by linarith
  with a show ?thesis
    by (simp add: fifo_inv_def delete_def set_delete_def distinct_removeAll)
qed

lemma fifo_inv_clear: "fifo_inv s \<Longrightarrow> 0 \<le> maxCapacity s \<Longrightarrow> fifo_inv (clear s)"
  by (simp add: fifo_inv_def clear_def)

lemma maxCapacity_apply_op [simp]: "maxCapacity (apply_op p s) = maxCapacity s"
  by (cases p) (simp_all add: delete_def clear_def split: prod.splits)

lemma maxCapacity_apply_ops [simp]: "maxCapacity (apply_ops ps s) = maxCapacity s"
  by (induction ps arbitrary: s) simp_all

lemma fifo_inv_apply_ops:
  "fifo_inv s \<Longrightarrow> 1 \<le> maxCapacity s \<Longrightarrow> fifo_inv (apply_ops ps s)"
proof (induction ps arbitrary: s)
  case Nil
  then show ?case by simp
next
  case (Cons p ps)
  have "fifo_inv (apply_op p s)"
    using Cons.prems by (cases p) (simp_all add: fifo_inv_add fifo_inv_delete fifo_inv_clear)
  then show ?case using Cons by simp
qed

lemma size_bounded_from_capacity_one:
  "1 \<le> C \<Longrightarrow> int (size_of (apply_ops ps (new_FifoSet C))) \<le> C"
  using fifo_inv_apply_ops [of "new_FifoSet C" ps]
  by (simp add: fifo_inv_def new_FifoSet_def size_of_def)

text \<open>
  C2 says that the size of a FifoSet is at most its capacity after each operation. For
  the capacities from 1 this is \<open>size_bounded_from_capacity_one\<close>. At capacity \<open>0\<close> the
  first \<open>add\<close> finds \<^verbatim>\<open>size >= maxCapacity\<close>, has no oldest item to delete, and inserts all
  the same: the set then holds one item, and the next item takes its place.
\<close>

theorem capacity_zero_holds_one_item:
  "capacity (apply_ops [Add ''t3_a''] (new_FifoSet 0)) = 0
   \<and> size_of (apply_ops [Add ''t3_a''] (new_FifoSet 0)) = 1
   \<and> serialize (apply_ops [Add ''t3_a'', Add ''t3_b''] (new_FifoSet 0)) = [''t3_b'']"
  by (simp add: capacity_def size_of_def serialize_def new_FifoSet_def add_def set_has_def
      set_first_def set_add_def set_delete_def)

lemma add_to_new_capacity_zero:
  "add item (new_FifoSet 0) = (True, \<lparr>items = [item], maxCapacity = 0\<rparr>)"
  by (simp add: new_FifoSet_def add_def set_has_def set_first_def set_add_def)

text \<open>
  C3 says that on a FifoSet of capacity \<open>0\<close> the call \<open>add\<close> of an item that is not a member
  returns \<^verbatim>\<open>false\<close> and leaves the set empty. In the code the call returns \<^verbatim>\<open>true\<close> and the
  item is a member afterwards: the test \<^verbatim>\<open>size >= maxCapacity\<close> holds, the empty set has no
  oldest item to delete, and the item is inserted and reported as added.
\<close>

theorem add_capacity_zero_inserts:
  "add ''t3_a'' (new_FifoSet 0) = (True, \<lparr>items = [''t3_a''], maxCapacity = 0\<rparr>)
   \<and> has ''t3_a'' (snd (add ''t3_a'' (new_FifoSet 0)))
   \<and> size_of (snd (add ''t3_a'' (new_FifoSet 0))) = 1"
  by (simp add: has_def size_of_def new_FifoSet_def add_def set_has_def set_first_def
      set_add_def)

subsection \<open>Serialize and deserialize\<close>

lemma add_each_room:
  assumes "distinct (items s @ xs)" and "int (length (items s @ xs)) \<le> maxCapacity s"
  shows "add_each xs s = s\<lparr>items := items s @ xs\<rparr>"
  using assms
proof (induction xs arbitrary: s)
  case Nil
  then show ?case by simp
next
  case (Cons x xs)
  have fresh: "x \<notin> set (items s)" using Cons.prems(1) by simp
  have room: "int (length (items s)) < maxCapacity s" using Cons.prems(2) by simp
  have step: "snd (add x s) = s\<lparr>items := items s @ [x]\<rparr>"
    using fresh room by (simp add: add_def Let_def set_has_def set_add_def)
  have "add_each xs (snd (add x s)) = (snd (add x s))\<lparr>items := items (snd (add x s)) @ xs\<rparr>"
    using Cons.prems by (intro Cons.IH) (simp_all add: step)
  then show ?case by (simp add: step)
qed

text \<open>
  C4. For a FifoSet \<open>s\<close> of capacity \<open>C\<close> whose serialized sequence has at most \<open>C\<close> items,
  \<open>deserialize (serialize s) C\<close> is \<open>s\<close> again: the same members in the same order. The
  members of \<open>s\<close> are those of a JavaScript \<^verbatim>\<open>Set\<close>, each held once.
\<close>

theorem deserialize_serialize:
  assumes "distinct (items s)" and "int (length (serialize s)) \<le> capacity s"
  shows "deserialize (serialize s) (capacity s) = s
       \<and> serialize (deserialize (serialize s) (capacity s)) = serialize s
       \<and> (\<forall>x. has x (deserialize (serialize s) (capacity s)) = has x s)"
proof -
  have "add_each (items s) (new_FifoSet (maxCapacity s)) =
        (new_FifoSet (maxCapacity s))\<lparr>items := items (new_FifoSet (maxCapacity s)) @ items s\<rparr>"
    using assms by (intro add_each_room) (simp_all add: new_FifoSet_def serialize_def capacity_def)
  then have "deserialize (serialize s) (capacity s) = s"
    by (simp add: deserialize_def serialize_def capacity_def new_FifoSet_def)
  then show ?thesis by simp
qed

theorem deserialize_serialize_witness:
  "deserialize (serialize \<lparr>items = [''p1'', ''p2''], maxCapacity = 3\<rparr>)
     (capacity \<lparr>items = [''p1'', ''p2''], maxCapacity = 3\<rparr>)
   = \<lparr>items = [''p1'', ''p2''], maxCapacity = 3\<rparr>"
  using deserialize_serialize [of "\<lparr>items = [''p1'', ''p2''], maxCapacity = 3\<rparr>"]
  by (simp add: serialize_def capacity_def)

section \<open>Properties of the strings\<close>

lemma lower_char_idem: "lower_char (lower_char c) = lower_char c"
  by (simp add: lower_char_def)

lemma eq_char_of_iff: "(c = char_of (n::nat)) = (take_bit 8 n = of_char c)"
  using char_of_eq_iff [of n c] by auto

lemmas lower_simps = toLowerCase_def lower_char_def char_of_eq_iff eq_char_of_iff

lemma toLowerCase_idem: "toLowerCase (toLowerCase s) = toLowerCase s"
  by (simp add: toLowerCase_def lower_char_idem)

lemma is_lower_toLowerCase: "is_lower (toLowerCase s)"
  by (simp add: is_lower_def toLowerCase_idem)

section \<open>Properties of reddit-service.ts\<close>

lemma lit_from_rest:
  "lit p k s = Some r \<Longrightarrow> \<exists>s'. length s' \<le> length s \<and> k s' = Some r"
proof (induction p arbitrary: s)
  case Nil
  then show ?case by auto
next
  case (Cons c p)
  show ?case
  proof (cases s)
    case Nil
    with Cons.prems show ?thesis by simp
  next
    case (Cons d ds)
    with Cons.prems have "c = d" and "lit p k ds = Some r"
      by (simp_all split: if_splits)
    from Cons.IH [OF this(2)] obtain s' where "length s' \<le> length ds" and "k s' = Some r"
      by blast
    with Cons have "length s' \<le> length s \<and> k s' = Some r" by simp
    then show ?thesis by blast
  qed
qed

lemma word_run_from_rest:
  "word_run n k s = Some r \<Longrightarrow> \<exists>s'. length s' \<le> length s \<and> k s' = Some r"
proof (induction n)
  case 0
  then show ?case by simp
next
  case (Suc n)
  show ?case
  proof (cases "k (drop (Suc n) s)")
    case None
    with Suc show ?thesis by simp
  next
    case (Some r')
    with Suc.prems have "k (drop (Suc n) s) = Some r" by simp
    moreover have "length (drop (Suc n) s) \<le> length s" by simp
    ultimately show ?thesis by blast
  qed
qed

lemma leaves_someI:
  assumes "\<And>s r. f s = Some r \<Longrightarrow> \<exists>s'. length s' \<le> length s \<and> k s' = Some r"
    and "leaves_some k"
  shows "leaves_some f"
  unfolding leaves_some_def
proof (intro allI impI)
  fix s r
  assume "f s = Some r"
  from assms(1) [OF this] obtain s' where s': "length s' \<le> length s" "k s' = Some r"
    by blast
  from assms(2) s'(2) have "r \<noteq> []" and "length r \<le> length s'"
    unfolding leaves_some_def by blast+
  with s'(1) show "r \<noteq> [] \<and> length r \<le> length s" by simp
qed

lemma leaves_some_lit: "leaves_some k \<Longrightarrow> leaves_some (lit p k)"
  by (rule leaves_someI [where k = k]) (rule lit_from_rest)

lemma leaves_some_word_plus: "leaves_some k \<Longrightarrow> leaves_some (word_plus k)"
  by (rule leaves_someI [where k = k]) (simp add: word_plus_def word_run_from_rest)

lemma leaves_some_optional:
  assumes "leaves_some (a k)" and "leaves_some k"
  shows "leaves_some (optional a k)"
  unfolding leaves_some_def
proof (intro allI impI)
  fix s r
  assume o: "optional a k s = Some r"
  show "r \<noteq> [] \<and> length r \<le> length s"
  proof (cases "a k s")
    case None
    with o have "k s = Some r" by (simp add: optional_def)
    with assms(2) show ?thesis unfolding leaves_some_def by blast
  next
    case (Some r')
    with o have "a k s = Some r" by (simp add: optional_def)
    with assms(1) show ?thesis unfolding leaves_some_def by blast
  qed
qed

lemma leaves_some_group_end: "leaves_some group_end"
  unfolding leaves_some_def group_end_def by (simp split: list.splits if_splits)

lemma leaves_some_tail:
  "leaves_some (lit ''reddit.com/r/'' (word_plus (lit ''/comments/'' (word_plus group_end))))"
  by (rule leaves_some_lit, rule leaves_some_word_plus, rule leaves_some_lit,
      rule leaves_some_word_plus, rule leaves_some_group_end)

lemma leaves_some_redditUrlPattern: "leaves_some redditUrlPattern"
proof -
  let ?tail = "lit ''reddit.com/r/'' (word_plus (lit ''/comments/'' (word_plus group_end)))"
  let ?sub = "\<lambda>k. word_plus (lit ''.'' k)"
  have "leaves_some (?sub ?tail)"
    by (rule leaves_some_word_plus, rule leaves_some_lit, rule leaves_some_tail)
  then have host: "leaves_some (optional ?sub ?tail)"
    by (rule leaves_some_optional) (rule leaves_some_tail)
  then have sep: "leaves_some (lit ''://'' (optional ?sub ?tail))"
    by (rule leaves_some_lit)
  then have "leaves_some (lit ''s'' (lit ''://'' (optional ?sub ?tail)))"
    by (rule leaves_some_lit)
  then have "leaves_some (optional (lit ''s'') (lit ''://'' (optional ?sub ?tail)))"
    using sep by (rule leaves_some_optional)
  then show ?thesis
    unfolding redditUrlPattern_def by (rule leaves_some_lit)
qed

lemma trimRedditUrl_unchanged: "(trimRedditUrl url = url) = (redditUrlPattern url = None)"
proof (cases "redditUrlPattern url")
  case None
  then show ?thesis by (simp add: trimRedditUrl_def)
next
  case (Some rest)
  with leaves_some_redditUrlPattern have "rest \<noteq> []" and "length rest \<le> length url"
    unfolding leaves_some_def by blast+
  then have "length (take (length url - length rest) url) < length url"
    by (cases rest) auto
  then have "take (length url - length rest) url \<noteq> url" by auto
  with Some show ?thesis by (simp add: trimRedditUrl_def)
qed

lemma published_link [simp]: "published f (post\<lparr>link := l\<rparr>) = published f post"
  by (simp add: published_def)

text \<open>
  C10, as the claim states it, fails: for a post whose link is the URL of a Reddit comments
  page, the function of reddit-service.ts cuts the title part off the link and the copy in
  conversation-manager.ts does not.
\<close>

theorem formatRedditPost_copy_counterexample:
  "formatRedditPost id
     \<lparr>post_id = ''t3_abc123'', title = ''Go 2'',
      link = ''https://www.reddit.com/r/golang/comments/abc123/go_2/'',
      contentSnippet = '''', pubDate = None, author = ''gopher''\<rparr>
   \<noteq> formatRedditPost_copy id
     \<lparr>post_id = ''t3_abc123'', title = ''Go 2'',
      link = ''https://www.reddit.com/r/golang/comments/abc123/go_2/'',
      contentSnippet = '''', pubDate = None, author = ''gopher''\<rparr>"
  by (simp add: formatRedditPost_def formatRedditPost_copy_def trimRedditUrl_def
      redditUrlPattern_def optional_def word_plus_def is_word_char_def group_end_def)

text \<open>
  C10, amended. The two definitions give the same string exactly for the posts whose link
  does not match the pattern of \<open>trimRedditUrl\<close>; for every post, the function of
  reddit-service.ts gives what the copy gives for the post with the trimmed link.
\<close>

theorem formatRedditPost_copy_agrees:
  "(formatRedditPost toUTCString post = formatRedditPost_copy toUTCString post)
     = (redditUrlPattern (link post) = None)
   \<and> formatRedditPost toUTCString post
     = formatRedditPost_copy toUTCString (post\<lparr>link := trimRedditUrl (link post)\<rparr>)"
  by (simp add: formatRedditPost_def formatRedditPost_copy_def trimRedditUrl_unchanged)

theorem formatRedditPost_copy_agrees_witness:
  "redditUrlPattern (link
     \<lparr>post_id = ''t3_1'', title = ''News'', link = ''https://example.com/story/1'',
      contentSnippet = '''', pubDate = Some ''2025-01-01'', author = ''ann''\<rparr>) = None
   \<and> formatRedditPost id
     \<lparr>post_id = ''t3_1'', title = ''News'', link = ''https://example.com/story/1'',
      contentSnippet = '''', pubDate = Some ''2025-01-01'', author = ''ann''\<rparr>
   = formatRedditPost_copy id
     \<lparr>post_id = ''t3_1'', title = ''News'', link = ''https://example.com/story/1'',
      contentSnippet = '''', pubDate = Some ''2025-01-01'', author = ''ann''\<rparr>"
proof -
  have none: "redditUrlPattern ''https://example.com/story/1'' = None"
    by (simp add: redditUrlPattern_def optional_def word_plus_def is_word_char_def group_end_def)
  from formatRedditPost_copy_agrees [of id
      "\<lparr>post_id = ''t3_1'', title = ''News'', link = ''https://example.com/story/1'',
        contentSnippet = '''', pubDate = Some ''2025-01-01'', author = ''ann''\<rparr>"] none
  show ?thesis by simp
qed

section \<open>Properties of the maps\<close>

lemma map_get_map_set:
  "map_get k' (map_set k v m) = (if k' = k then Some v else map_get k' m)"
  by (induction m) (auto simp: map_get_def)

lemma map_get_map_delete:
  "map_get k' (map_delete k m) = (if k' = k then None else map_get k' m)"
  by (induction m) (auto simp: map_get_def map_delete_def)

lemma map_set_map_set: "map_set k v (map_set k w m) = map_set k v m"
  by (induction m) auto

lemma map_delete_map_set: "map_delete k (map_set k v m) = map_delete k m"
  by (induction m) (auto simp: map_delete_def)

lemma list_all_map_set: "list_all P m \<Longrightarrow> P (k, v) \<Longrightarrow> list_all P (map_set k v m)"
  by (induction m) auto

lemma list_all_map_delete: "list_all P m \<Longrightarrow> list_all P (map_delete k m)"
  by (simp add: map_delete_def list_all_iff)

lemma list_all_map_get: "list_all P m \<Longrightarrow> map_get k m = Some v \<Longrightarrow> P (k, v)"
  by (auto simp: map_get_def list_all_iff dest: map_of_SomeD)

lemma keys_map_set:
  "map fst (map_set k v m) = (if k \<in> set (map fst m) then map fst m else map fst m @ [k])"
  by (induction m) auto

lemma distinct_keys_map_set:
  "distinct (map fst m) \<Longrightarrow> distinct (map fst (map_set k v m))"
  by (simp add: keys_map_set)

lemma distinct_keys_map_delete:
  "distinct (map fst m) \<Longrightarrow> distinct (map fst (map_delete k m))"
  by (simp add: map_delete_def distinct_map_filter)

lemma set_add_not_empty [simp]: "set_add x xs \<noteq> []"
  by (cases xs) (simp_all add: set_add_def set_has_def)

lemma foldl_set_add_not_empty:
  "acc \<noteq> [] \<Longrightarrow> foldl (\<lambda>s x. set_add x s) acc xs \<noteq> []"
  by (induction xs arbitrary: acc) simp_all

lemma set_of_array_not_empty: "xs \<noteq> [] \<Longrightarrow> set_of_array xs \<noteq> []"
  by (cases xs) (simp_all add: set_of_array_def foldl_set_add_not_empty)

section \<open>Properties of ConversationManager\<close>

subsection \<open>What saving and logging leave alone\<close>

lemma say_fields [simp]:
  "userSubscriptions (say e m) = userSubscriptions m"
  "seenPostsBySubreddit (say e m) = seenPostsBySubreddit m"
  "disk (say e m) = disk m"
  "outbox (say e m) = outbox m"
  "console (say e m) = console m @ [e]"
  by (simp_all add: say_def)

lemma saveUserData_fields [simp]:
  "userSubscriptions (saveUserData ok m) = userSubscriptions m"
  "seenPostsBySubreddit (saveUserData ok m) = seenPostsBySubreddit m"
  "outbox (saveUserData ok m) = outbox m"
  by (simp_all add: saveUserData_def split: sum.splits)

lemma saveUserData_failed:
  "disk (saveUserData False m) = disk m"
  "console (saveUserData False m) = console m @ [SaveFailed IOError]"
  by (simp_all add: saveUserData_def writeFileSync_def)

lemma saveUserData_done:
  "disk m \<noteq> NoDirectory \<Longrightarrow> disk (saveUserData True m) = File (Json (snapshot m))"
  by (simp add: saveUserData_def writeFileSync_def JSON_stringify_def)

lemma snapshot_subscriptions:
  "subscriptions (snapshot m)
   = Some (map (\<lambda>(address, subreddits). (address, Strings subreddits)) (userSubscriptions m))"
  by (simp add: snapshot_def)

subsection \<open>No subscriber without a topic\<close>

lemma no_empty_subscribe:
  assumes "no_empty_subscriber m"
  shows "no_empty_subscriber (snd (subscribeToSubreddit ok a t m))"
proof (cases "map_has (toLowerCase a) (userSubscriptions m)")
  case True
  then show ?thesis
    using assms
    by (auto simp: subscribeToSubreddit_def Let_def no_empty_subscriber_def
        intro!: list_all_map_set)
next
  case False
  then have none: "map_get (toLowerCase a) (userSubscriptions m) = None"
    by (simp add: map_has_def)
  show ?thesis
    using assms False
    by (auto simp: subscribeToSubreddit_def Let_def no_empty_subscriber_def
        map_get_map_set set_has_def map_set_map_set intro!: list_all_map_set)
qed

lemma no_empty_unsubscribe:
  assumes "no_empty_subscriber m"
  shows "no_empty_subscriber (snd (unsubscribeFromSubreddit ok a t m))"
  using assms
  by (auto simp: unsubscribeFromSubreddit_def Let_def no_empty_subscriber_def
      map_delete_map_set split: option.splits
      intro!: list_all_map_set list_all_map_delete)

lemma no_empty_unsubscribe_all:
  assumes "no_empty_subscriber m"
  shows "no_empty_subscriber (snd (unsubscribeFromAllSubreddits ok a m))"
  using assms
  by (auto simp: unsubscribeFromAllSubreddits_def Let_def no_empty_subscriber_def
      split: option.splits intro!: list_all_map_delete)

lemma no_empty_registry_call:
  "no_empty_subscriber m \<Longrightarrow> no_empty_subscriber (snd (registry_call p m))"
  by (cases p) (simp_all add: no_empty_subscribe no_empty_unsubscribe no_empty_unsubscribe_all)

lemma no_empty_registry_steps:
  "no_empty_subscriber m \<Longrightarrow> no_empty_subscriber (registry_steps ps m)"
  by (induction ps arbitrary: m) (simp_all add: no_empty_registry_call)

subsection \<open>Loading\<close>

lemma load_subscriptions_seen [simp]:
  "seenPostsBySubreddit (snd (load_subscriptions entries m)) = seenPostsBySubreddit m"
  by (induction entries m rule: load_subscriptions.induct)
     (simp_all add: Let_def split: entry_value.splits)

lemma load_subscriptions_disk [simp]:
  "disk (snd (load_subscriptions entries m)) = disk m"
  by (induction entries m rule: load_subscriptions.induct)
     (simp_all add: Let_def split: entry_value.splits)

lemma load_subscriptions_console [simp]:
  "console (snd (load_subscriptions entries m)) = console m"
  by (induction entries m rule: load_subscriptions.induct)
     (simp_all add: Let_def split: entry_value.splits)

lemma load_seenPosts_subscriptions [simp]:
  "userSubscriptions (snd (load_seenPosts entries m)) = userSubscriptions m"
  by (induction entries m rule: load_seenPosts.induct)
     (simp_all add: Let_def split: entry_value.splits)

lemma load_seenPosts_disk [simp]:
  "disk (snd (load_seenPosts entries m)) = disk m"
  by (induction entries m rule: load_seenPosts.induct)
     (simp_all add: Let_def split: entry_value.splits)

lemma load_seenPosts_console [simp]:
  "console (snd (load_seenPosts entries m)) = console m"
  by (induction entries m rule: load_seenPosts.induct)
     (simp_all add: Let_def split: entry_value.splits)

lemma snd_and_then:
  "snd (and_then r f) = (case fst r of Some e \<Rightarrow> snd r | None \<Rightarrow> snd (f (snd r)))"
  by (cases r) (simp add: and_then_def split: option.splits)


lemma no_empty_load_subscriptions:
  assumes "no_empty_subscriber m"
    and "list_all (\<lambda>(address, subreddits). subreddits \<noteq> Strings [] \<and> subreddits \<noteq> Null)
           entries"
  shows "no_empty_subscriber (snd (load_subscriptions entries m))"
  using assms
proof (induction entries arbitrary: m)
  case Nil
  then show ?case by simp
next
  case (Cons e entries)
  obtain address v where e: "e = (address, v)" by (cases e)
  show ?case
  proof (cases v)
    case Other
    with e Cons.prems(1) show ?thesis by (simp add: Let_def)
  next
    case Null
    with e Cons.prems(2) show ?thesis by simp
  next
    case (Strings topics)
    with e Cons.prems(2) have ne: "topics \<noteq> []" by simp
    have "no_empty_subscriber
            (m\<lparr>userSubscriptions :=
                 map_set (toLowerCase address) (set_of_array topics) (userSubscriptions m)\<rparr>)"
      using Cons.prems(1) ne
      by (auto simp: no_empty_subscriber_def set_of_array_not_empty intro!: list_all_map_set)
    moreover from Cons.prems(2)
    have "list_all (\<lambda>(address, subreddits). subreddits \<noteq> Strings [] \<and> subreddits \<noteq> Null)
            entries"
      by simp
    ultimately show ?thesis using Cons.IH e Strings by (simp add: Let_def)
  qed
qed

lemma no_empty_loadUserData_try:
  assumes "no_empty_subscriber m" and "every_subscriber_has_topic (disk m)"
  shows "no_empty_subscriber (snd (loadUserData_try io m))"
proof (cases "disk m")
  case NoDirectory
  with assms(1) show ?thesis
    by (simp add: loadUserData_try_def existsSync_dir_def existsSync_file_def mkdirSync_def
        writeFileSync_def Let_def no_empty_subscriber_def)
next
  case NoFile
  with assms(1) show ?thesis
    by (simp add: loadUserData_try_def existsSync_dir_def existsSync_file_def
        writeFileSync_def Let_def no_empty_subscriber_def)
next
  case (File content)
  show ?thesis
  proof (cases content)
    case Unparsable
    with File assms(1) show ?thesis
      by (simp add: loadUserData_try_def existsSync_dir_def existsSync_file_def
          readFileSync_def JSON_parse_def Let_def no_empty_subscriber_def)
  next
    case JsonNull
    with File assms(1) show ?thesis
      by (simp add: loadUserData_try_def existsSync_dir_def existsSync_file_def
          readFileSync_def JSON_parse_def Let_def no_empty_subscriber_def)
  next
    case (Json d)
    let ?m1 = "m\<lparr>disk := File (Json d)\<rparr>"
    let ?r2 = "case subscriptions d of None \<Rightarrow> (None, ?m1)
               | Some entries \<Rightarrow> load_subscriptions entries ?m1"
    have m1: "no_empty_subscriber ?m1"
      using assms(1) by (simp add: no_empty_subscriber_def)
    have m2: "no_empty_subscriber (snd ?r2)"
      using m1 assms(2) File Json
      by (auto simp: every_subscriber_has_topic_def no_empty_load_subscriptions
          split: option.splits)
    have "userSubscriptions
            (snd (and_then ?r2
               (\<lambda>m2. and_then
                  (case seenPosts d of None \<Rightarrow> (None, m2)
                   | Some entries \<Rightarrow> load_seenPosts entries m2)
                  (\<lambda>m3. (None, say (Loaded (length (userSubscriptions m3))
                                    (length (seenPostsBySubreddit m3))) m3)))))
          = userSubscriptions (snd ?r2)"
      by (simp add: snd_and_then split: option.splits)
    with m2 have "no_empty_subscriber
            (snd (and_then ?r2
               (\<lambda>m2. and_then
                  (case seenPosts d of None \<Rightarrow> (None, m2)
                   | Some entries \<Rightarrow> load_seenPosts entries m2)
                  (\<lambda>m3. (None, say (Loaded (length (userSubscriptions m3))
                                    (length (seenPostsBySubreddit m3))) m3)))))"
      by (simp add: no_empty_subscriber_def)
    then show ?thesis
      using File Json m1
      by (simp add: loadUserData_try_def existsSync_dir_def existsSync_file_def
          readFileSync_def JSON_parse_def Let_def)
  qed
qed

lemma loadUserData_returns:
  "loadUserData io m = Inr (case fst (loadUserData_try io m) of
                              None \<Rightarrow> snd (loadUserData_try io m)
                            | Some e \<Rightarrow> say (LoadFailed e) (snd (loadUserData_try io m)))"
  by (simp add: loadUserData_def split: prod.splits option.splits)

lemma no_empty_new_ConversationManager:
  assumes "every_subscriber_has_topic fs"
  shows "\<exists>m'. new_ConversationManager io fs = Inr m' \<and> no_empty_subscriber m'"
proof -
  let ?m0 = "\<lparr>seenPostsBySubreddit = [], userSubscriptions = [], disk = fs,
              console = [], outbox = []\<rparr>"
  have "no_empty_subscriber ?m0" by (simp add: no_empty_subscriber_def)
  moreover have "every_subscriber_has_topic (disk ?m0)" using assms by simp
  ultimately have "no_empty_subscriber (snd (loadUserData_try io ?m0))"
    by (rule no_empty_loadUserData_try)
  then show ?thesis
    by (simp add: new_ConversationManager_def loadUserData_returns no_empty_subscriber_def
        split: option.splits)
qed

lemma unsubscribe_last_topic:
  assumes "map_get (toLowerCase a) (userSubscriptions m) = Some [toLowerCase t]"
  shows "\<not> map_has (toLowerCase a) (userSubscriptions (snd (unsubscribeFromSubreddit ok a t m)))"
  using assms
  by (simp add: unsubscribeFromSubreddit_def Let_def set_has_def set_delete_def map_has_def
      map_get_map_delete)

lemmas load_defs =
  new_ConversationManager_def loadUserData_def loadUserData_try_def and_then_def
  existsSync_dir_def existsSync_file_def mkdirSync_def writeFileSync_def readFileSync_def
  JSON_parse_def JSON_stringify_def set_of_array_def say_def deserialize_def new_FifoSet_def
  add_def set_has_def set_add_def

text \<open>
  C7, as the claim states it, fails for loading: the loader gives every subscriber of the
  document the set of the topics listed for it, also when the list is empty.
\<close>

theorem load_empty_topics_counterexample:
  "new_ConversationManager \<lparr>mkdir_ok = True, write_ok = True, read_ok = True\<rparr>
     (File (Json \<lparr>subscriptions = Some [(''0xabc'', Strings [])], seenPosts = Some []\<rparr>))
   = Inr \<lparr>seenPostsBySubreddit = [], userSubscriptions = [(''0xabc'', [])],
          disk = File (Json \<lparr>subscriptions = Some [(''0xabc'', Strings [])],
                             seenPosts = Some []\<rparr>),
          console = [Loaded 1 0], outbox = []\<rparr>
   \<and> \<not> no_empty_subscriber
        \<lparr>seenPostsBySubreddit = [], userSubscriptions = [(''0xabc'', [])],
         disk = File (Json \<lparr>subscriptions = Some [(''0xabc'', Strings [])],
                            seenPosts = Some []\<rparr>),
         console = [Loaded 1 0], outbox = []\<rparr>"
  by (simp add: load_defs lower_simps no_empty_subscriber_def)

text \<open>
  C7, amended. Subscribe, unsubscribe and unsubscribe-all, applied to a registry in which
  no subscriber is mapped to an empty topic set, give such a registry again; loading gives
  one when every subscriber of the document in the data file has a topic; and a subscriber
  whose last topic is removed is deleted from the registry.
\<close>

theorem registry_no_empty_subscriber:
  "(no_empty_subscriber m \<longrightarrow> no_empty_subscriber (registry_steps ps m))
   \<and> (every_subscriber_has_topic fs \<longrightarrow>
        (\<exists>m'. new_ConversationManager io fs = Inr m' \<and> no_empty_subscriber m'))
   \<and> (map_get (toLowerCase a) (userSubscriptions m) = Some [toLowerCase t] \<longrightarrow>
        \<not> map_has (toLowerCase a)
            (userSubscriptions (snd (unsubscribeFromSubreddit ok a t m))))"
  using no_empty_registry_steps no_empty_new_ConversationManager unsubscribe_last_topic
  by blast

theorem registry_no_empty_subscriber_witness:
  "no_empty_subscriber
     \<lparr>seenPostsBySubreddit = [], userSubscriptions = [(''0xabc'', [''golang''])],
      disk = NoFile, console = [], outbox = []\<rparr>
   \<and> no_empty_subscriber
       (registry_steps [Subscribe True ''0xDEF'' ''Rust'', Unsubscribe False ''0xABC'' ''GoLang'']
          \<lparr>seenPostsBySubreddit = [], userSubscriptions = [(''0xabc'', [''golang''])],
           disk = NoFile, console = [], outbox = []\<rparr>)
   \<and> every_subscriber_has_topic
       (File (Json \<lparr>subscriptions = Some [(''0xABC'', Strings [''golang''])], seenPosts = None\<rparr>))
   \<and> (\<exists>m'. new_ConversationManager \<lparr>mkdir_ok = True, write_ok = True, read_ok = True\<rparr>
              (File (Json \<lparr>subscriptions = Some [(''0xABC'', Strings [''golang''])],
                           seenPosts = None\<rparr>))
            = Inr m' \<and> no_empty_subscriber m')
   \<and> \<not> map_has (toLowerCase ''0xABC'')
        (userSubscriptions (snd (unsubscribeFromSubreddit True ''0xABC'' ''GoLang''
           \<lparr>seenPostsBySubreddit = [], userSubscriptions = [(''0xabc'', [''golang''])],
            disk = NoFile, console = [], outbox = []\<rparr>)))"
proof -
  let ?m = "\<lparr>seenPostsBySubreddit = [], userSubscriptions = [(''0xabc'', [''golang''])],
             disk = NoFile, console = [], outbox = []\<rparr>"
  let ?fs = "File (Json \<lparr>subscriptions = Some [(''0xABC'', Strings [''golang''])],
                         seenPosts = None\<rparr>)"
  have h1: "no_empty_subscriber ?m" by (simp add: no_empty_subscriber_def)
  have h2: "every_subscriber_has_topic ?fs" by (simp add: every_subscriber_has_topic_def)
  have h3: "map_get (toLowerCase ''0xABC'') (userSubscriptions ?m) = Some [toLowerCase ''GoLang'']"
    by (simp add: map_get_def lower_simps)
  from registry_no_empty_subscriber
         [of ?m "[Subscribe True ''0xDEF'' ''Rust'', Unsubscribe False ''0xABC'' ''GoLang'']"
             ?fs "\<lparr>mkdir_ok = True, write_ok = True, read_ok = True\<rparr>"
             "''0xABC''" "''GoLang''" True]
       h1 h2 h3
  show ?thesis by blast
qed








subsection \<open>A save that fails\<close>

lemma subscribeToSubreddit_eq:
  "subscribeToSubreddit ok a t m =
     (let subs = (case map_get (toLowerCase a) (userSubscriptions m) of
                    Some s \<Rightarrow> s | None \<Rightarrow> [])
      in if toLowerCase t \<in> set subs then (False, m)
         else (True, say (Subscribed a t)
                 (saveUserData ok
                    (m\<lparr>userSubscriptions :=
                         map_set (toLowerCase a) (subs @ [toLowerCase t])
                           (userSubscriptions m)\<rparr>))))"
proof (cases "map_get (toLowerCase a) (userSubscriptions m)")
  case None
  then show ?thesis
    by (simp add: subscribeToSubreddit_def Let_def map_has_def map_get_map_set set_has_def
        set_add_def map_set_map_set)
next
  case (Some s)
  then show ?thesis
    by (simp add: subscribeToSubreddit_def Let_def map_has_def set_has_def set_add_def)
qed

lemma unsubscribeFromSubreddit_eq:
  "unsubscribeFromSubreddit ok a t m =
     (case map_get (toLowerCase a) (userSubscriptions m) of
        None \<Rightarrow> (False, m)
      | Some subs \<Rightarrow>
          if toLowerCase t \<notin> set subs then (False, m)
          else (True, say (Unsubscribed a t)
                  (saveUserData ok
                     (m\<lparr>userSubscriptions :=
                          (if removeAll (toLowerCase t) subs = []
                           then map_delete (toLowerCase a) (userSubscriptions m)
                           else map_set (toLowerCase a) (removeAll (toLowerCase t) subs)
                                  (userSubscriptions m))\<rparr>))))"
  by (simp add: unsubscribeFromSubreddit_def Let_def set_has_def set_delete_def
      map_delete_map_set split: option.splits)

lemma unsubscribeFromAllSubreddits_eq:
  "unsubscribeFromAllSubreddits ok a m =
     (case map_get (toLowerCase a) (userSubscriptions m) of
        None \<Rightarrow> (False, m)
      | Some subs \<Rightarrow>
          if subs = [] then (False, m)
          else (True, say (UnsubscribedAll a (length subs))
                  (saveUserData ok
                     (m\<lparr>userSubscriptions :=
                          map_delete (toLowerCase a) (userSubscriptions m)\<rparr>))))"
  by (simp add: unsubscribeFromAllSubreddits_def Let_def split: option.splits)

lemmas registry_eqs =
  subscribeToSubreddit_eq unsubscribeFromSubreddit_eq unsubscribeFromAllSubreddits_eq

lemma with_save_call:
  "fst (registry_call (with_save ok p) m) = fst (registry_call (with_save ok' p) m)
   \<and> memory (snd (registry_call (with_save ok p) m))
     = memory (snd (registry_call (with_save ok' p) m))"
  by (cases p) (simp_all add: registry_eqs memory_def Let_def split: option.splits)

lemma failed_call_disk: "disk (snd (registry_call (with_save False p) m)) = disk m"
  by (cases p) (simp_all add: registry_eqs Let_def saveUserData_failed split: option.splits)

lemma failed_call_console:
  "fst (registry_call (with_save False p) m) \<Longrightarrow>
   SaveFailed IOError \<in> set (console (snd (registry_call (with_save False p) m)))"
  by (cases p)
     (simp_all add: registry_eqs Let_def saveUserData_failed split: option.splits if_splits)

lemma removeAll_member_neq:
  assumes "x \<in> set xs"
  shows "removeAll x xs \<noteq> xs"
proof
  assume "removeAll x xs = xs"
  then have "set xs = set xs - {x}" by (metis set_removeAll)
  with assms show False by blast
qed

lemma subscribe_changes:
  "fst (subscribeToSubreddit ok a t m) \<Longrightarrow>
   userSubscriptions (snd (subscribeToSubreddit ok a t m)) \<noteq> userSubscriptions m"
proof
  assume r: "fst (subscribeToSubreddit ok a t m)"
    and same: "userSubscriptions (snd (subscribeToSubreddit ok a t m)) = userSubscriptions m"
  let ?a = "toLowerCase a" and ?t = "toLowerCase t"
  define subs where "subs = (case map_get ?a (userSubscriptions m) of Some s \<Rightarrow> s | None \<Rightarrow> [])"
  have eq: "subscribeToSubreddit ok a t m =
              (if ?t \<in> set subs then (False, m)
               else (True, say (Subscribed a t)
                       (saveUserData ok
                          (m\<lparr>userSubscriptions :=
                               map_set ?a (subs @ [?t]) (userSubscriptions m)\<rparr>))))"
    by (simp add: subscribeToSubreddit_eq Let_def subs_def)
  with r have "?t \<notin> set subs" by (simp split: if_splits)
  with eq have "userSubscriptions (snd (subscribeToSubreddit ok a t m))
               = map_set ?a (subs @ [?t]) (userSubscriptions m)"
    by simp
  with same have g: "map_get ?a (userSubscriptions m) = Some (subs @ [?t])"
    by (metis map_get_map_set)
  have "subs = (case map_get ?a (userSubscriptions m) of Some s \<Rightarrow> s | None \<Rightarrow> [])"
    by (rule subs_def)
  also have "\<dots> = subs @ [?t]" by (simp add: g)
  finally show False by simp
qed

lemma unsubscribe_changes:
  "fst (unsubscribeFromSubreddit ok a t m) \<Longrightarrow>
   userSubscriptions (snd (unsubscribeFromSubreddit ok a t m)) \<noteq> userSubscriptions m"
proof
  assume r: "fst (unsubscribeFromSubreddit ok a t m)"
    and same: "userSubscriptions (snd (unsubscribeFromSubreddit ok a t m)) = userSubscriptions m"
  let ?a = "toLowerCase a" and ?t = "toLowerCase t"
  from r obtain subs where subs: "map_get ?a (userSubscriptions m) = Some subs" "?t \<in> set subs"
    by (auto simp: unsubscribeFromSubreddit_eq split: option.splits if_splits)
  have "map_get ?a (userSubscriptions (snd (unsubscribeFromSubreddit ok a t m)))
        = (if removeAll ?t subs = [] then None else Some (removeAll ?t subs))"
    using subs by (simp add: unsubscribeFromSubreddit_eq map_get_map_set map_get_map_delete)
  with same subs(1) have "removeAll ?t subs = subs" by (simp split: if_splits)
  with subs(2) show False by (simp add: removeAll_member_neq)
qed

lemma unsubscribe_all_changes:
  "fst (unsubscribeFromAllSubreddits ok a m) \<Longrightarrow>
   userSubscriptions (snd (unsubscribeFromAllSubreddits ok a m)) \<noteq> userSubscriptions m"
proof
  assume r: "fst (unsubscribeFromAllSubreddits ok a m)"
    and same: "userSubscriptions (snd (unsubscribeFromAllSubreddits ok a m)) = userSubscriptions m"
  let ?a = "toLowerCase a"
  from r obtain subs where subs: "map_get ?a (userSubscriptions m) = Some subs" "subs \<noteq> []"
    by (auto simp: unsubscribeFromAllSubreddits_eq split: option.splits if_splits)
  have "map_get ?a (userSubscriptions (snd (unsubscribeFromAllSubreddits ok a m))) = None"
    using subs by (simp add: unsubscribeFromAllSubreddits_eq map_get_map_delete)
  with same subs(1) show False by simp
qed

lemma registry_call_changes:
  "fst (registry_call p m) \<Longrightarrow>
   userSubscriptions (snd (registry_call p m)) \<noteq> userSubscriptions m"
  by (cases p) (simp_all add: subscribe_changes unsubscribe_changes unsubscribe_all_changes)

lemma snapshot_differs:
  assumes "userSubscriptions m' \<noteq> userSubscriptions m"
  shows "snapshot m' \<noteq> snapshot m"
proof
  assume "snapshot m' = snapshot m"
  then have "subscriptions (snapshot m') = subscriptions (snapshot m)" by simp
  then have "map (\<lambda>(address, subreddits). (address, Strings subreddits)) (userSubscriptions m')
             = map (\<lambda>(address, subreddits). (address, Strings subreddits)) (userSubscriptions m)"
    by (simp add: snapshot_subscriptions)
  moreover have "inj (\<lambda>(address :: string, subreddits). (address, Strings subreddits))"
    by (auto simp: inj_on_def)
  ultimately have "userSubscriptions m' = userSubscriptions m"
    by (simp add: inj_map_eq_map)
  with assms show False by simp
qed

subsection \<open>Sending a post\<close>

lemma memory_simps [simp]:
  "memory (say e m) = memory m"
  "memory (m\<lparr>console := c\<rparr>) = memory m"
  "memory (m\<lparr>outbox := b\<rparr>) = memory m"
  "memory (saveUserData ok m) = memory m"
  by (simp_all add: memory_def)

lemma send_loop_memory:
  "memory (snd (snd (send_loop message addresses cs (i, j, m)))) = memory m"
proof (induction cs arbitrary: i j m)
  case Nil
  then show ?case by simp
next
  case (Cons c cs)
  show ?case
    by (simp add: Let_def Cons.IH split: prod.splits)
qed

lemma sendToSpecificAddresses_memory:
  "memory (snd (sendToSpecificAddresses cl message addresses m)) = memory m"
proof (cases "conversations_list cl")
  case None
  then show ?thesis by (simp add: sendToSpecificAddresses_def)
next
  case (Some cs)
  obtain i j m' where l: "send_loop message addresses cs (0, 0, say (Sending (length addresses)) m)
                          = (i, j, m')"
    by (cases "send_loop message addresses cs (0, 0, say (Sending (length addresses)) m)") auto
  have "memory m' = memory (say (Sending (length addresses)) m)"
    using send_loop_memory [of message addresses cs 0 0 "say (Sending (length addresses)) m"] l
    by simp
  then show ?thesis
    using Some l by (simp add: sendToSpecificAddresses_def Let_def)
qed

lemma sendToSpecificAddresses_seen [simp]:
  "seenPostsBySubreddit (snd (sendToSpecificAddresses cl message addresses m))
   = seenPostsBySubreddit m"
  using sendToSpecificAddresses_memory [of cl message addresses m] by (simp add: memory_def)

lemma sendToSpecificAddresses_subscriptions [simp]:
  "userSubscriptions (snd (sendToSpecificAddresses cl message addresses m))
   = userSubscriptions m"
  using sendToSpecificAddresses_memory [of cl message addresses m] by (simp add: memory_def)

lemma send_loop_disk:
  "disk (snd (snd (send_loop message addresses cs (i, j, m)))) = disk m"
proof (induction cs arbitrary: i j m)
  case Nil
  then show ?case by simp
next
  case (Cons c cs)
  show ?case
    by (simp add: Let_def Cons.IH split: prod.splits)
qed

lemma sendToSpecificAddresses_disk [simp]:
  "disk (snd (sendToSpecificAddresses cl message addresses m)) = disk m"
proof (cases "conversations_list cl")
  case None
  then show ?thesis by (simp add: sendToSpecificAddresses_def)
next
  case (Some cs)
  obtain i j m' where l: "send_loop message addresses cs (0, 0, say (Sending (length addresses)) m)
                          = (i, j, m')"
    by (cases "send_loop message addresses cs (0, 0, say (Sending (length addresses)) m)") auto
  have "disk m' = disk (say (Sending (length addresses)) m)"
    using send_loop_disk [of message addresses cs 0 0 "say (Sending (length addresses)) m"] l
    by simp
  then show ?thesis
    using Some l by (simp add: sendToSpecificAddresses_def Let_def)
qed

lemma sendToSpecificAddresses_result:
  "fst (sendToSpecificAddresses cl message addresses m) =
     (case conversations_list cl of None \<Rightarrow> Inl TransportError | Some cs \<Rightarrow> Inr ())"
  by (simp add: sendToSpecificAddresses_def Let_def split: option.splits prod.splits)

lemma getSubscribers_cong:
  "userSubscriptions m' = userSubscriptions m \<Longrightarrow>
   getSubscribersForSubreddit s m' = getSubscribersForSubreddit s m"
  by (simp add: getSubscribersForSubreddit_def)

lemma sendRedditPostToSubscribers_eq:
  "sendRedditPostToSubscribers toUTCString ok cl post subreddit m =
     (let seen = (case map_get (toLowerCase subreddit) (seenPostsBySubreddit m) of
                    Some s \<Rightarrow> s | None \<Rightarrow> new_FifoSet 50)
      in if has (post_id post) seen then (Inr False, m)
         else
           let m3 = saveUserData ok
                      (m\<lparr>seenPostsBySubreddit :=
                           map_set (toLowerCase subreddit) (snd (add (post_id post) seen))
                             (seenPostsBySubreddit m)\<rparr>)
           in if getSubscribersForSubreddit subreddit m = []
              then (Inr False, say (NoSubscribers subreddit) m3)
              else (case sendToSpecificAddresses cl (formatRedditPost toUTCString post)
                           (getSubscribersForSubreddit subreddit m) m3 of
                      (Inl e, m4) \<Rightarrow> (Inl e, m4)
                    | (Inr u, m4) \<Rightarrow> (Inr True, m4)))"
proof (cases "map_get (toLowerCase subreddit) (seenPostsBySubreddit m)")
  case None
  have fresh: "\<not> has (post_id post) (new_FifoSet 50)"
    by (simp add: has_def set_has_def new_FifoSet_def)
  have subs: "getSubscribersForSubreddit subreddit
                (saveUserData ok
                   (m\<lparr>seenPostsBySubreddit :=
                        map_set (toLowerCase subreddit)
                          (snd (add (post_id post) (new_FifoSet 50)))
                          (seenPostsBySubreddit m)\<rparr>))
              = getSubscribersForSubreddit subreddit m"
    by (rule getSubscribers_cong) simp
  show ?thesis
    using None fresh subs
    by (simp add: sendRedditPostToSubscribers_def Let_def map_has_def map_get_map_set
        map_set_map_set)
next
  case (Some s)
  have subs: "getSubscribersForSubreddit subreddit
                (saveUserData ok
                   (m\<lparr>seenPostsBySubreddit :=
                        map_set (toLowerCase subreddit) (snd (add (post_id post) s))
                          (seenPostsBySubreddit m)\<rparr>))
              = getSubscribersForSubreddit subreddit m"
    by (rule getSubscribers_cong) simp
  show ?thesis
    using Some subs by (simp add: sendRedditPostToSubscribers_def Let_def map_has_def)
qed

lemma seen_after_send:
  "seenPostsBySubreddit (snd (sendRedditPostToSubscribers toUTCString ok cl post subreddit m)) =
     (let seen = (case map_get (toLowerCase subreddit) (seenPostsBySubreddit m) of
                    Some s \<Rightarrow> s | None \<Rightarrow> new_FifoSet 50)
      in if has (post_id post) seen then seenPostsBySubreddit m
         else map_set (toLowerCase subreddit) (snd (add (post_id post) seen))
                (seenPostsBySubreddit m))"
proof -
  define seen where
    "seen = (case map_get (toLowerCase subreddit) (seenPostsBySubreddit m) of
               Some s \<Rightarrow> s | None \<Rightarrow> new_FifoSet 50)"
  define m3 where
    "m3 = saveUserData ok
            (m\<lparr>seenPostsBySubreddit :=
                 map_set (toLowerCase subreddit) (snd (add (post_id post) seen))
                   (seenPostsBySubreddit m)\<rparr>)"
  obtain r m4 where s: "sendToSpecificAddresses cl (formatRedditPost toUTCString post)
                          (getSubscribersForSubreddit subreddit m) m3 = (r, m4)"
    by (cases "sendToSpecificAddresses cl (formatRedditPost toUTCString post)
                 (getSubscribersForSubreddit subreddit m) m3") auto
  have "seenPostsBySubreddit m4 = seenPostsBySubreddit m3"
    using sendToSpecificAddresses_seen
            [of cl "formatRedditPost toUTCString post" "getSubscribersForSubreddit subreddit m" m3] s
    by simp
  then have m4: "seenPostsBySubreddit m4
                 = map_set (toLowerCase subreddit) (snd (add (post_id post) seen))
                     (seenPostsBySubreddit m)"
    by (simp add: m3_def)
  show ?thesis
    unfolding sendRedditPostToSubscribers_eq seen_def [symmetric] Let_def m3_def [symmetric]
    using s m4 by (cases r) (simp_all add: m3_def)
qed

text \<open>
  What a call of \<open>sendRedditPostToSubscribers\<close> returns, and what it leaves in the two
  maps and in the file, written without the state that the sending of the messages
  leaves.
\<close>

lemma after_send:
  fixes toUTCString ok cl post subreddit m
  defines "seen \<equiv> (case map_get (toLowerCase subreddit) (seenPostsBySubreddit m) of
                         Some s \<Rightarrow> s | None \<Rightarrow> new_FifoSet 50)"
  defines "res \<equiv> sendRedditPostToSubscribers toUTCString ok cl post subreddit m"
  shows "fst res =
           (if has (post_id post) seen \<or> getSubscribersForSubreddit subreddit m = []
            then Inr False
            else (case conversations_list cl of
                    None \<Rightarrow> Inl TransportError | Some cs \<Rightarrow> Inr True))"
    and "userSubscriptions (snd res) = userSubscriptions m"
    and "disk (snd res) =
           (if has (post_id post) seen then disk m
            else disk (saveUserData ok
                         (m\<lparr>seenPostsBySubreddit :=
                              map_set (toLowerCase subreddit) (snd (add (post_id post) seen))
                                (seenPostsBySubreddit m)\<rparr>)))"
proof -
  define m3 where
    "m3 = saveUserData ok
            (m\<lparr>seenPostsBySubreddit :=
                 map_set (toLowerCase subreddit) (snd (add (post_id post) seen))
                   (seenPostsBySubreddit m)\<rparr>)"
  obtain r m4 where s: "sendToSpecificAddresses cl (formatRedditPost toUTCString post)
                          (getSubscribersForSubreddit subreddit m) m3 = (r, m4)"
    by (cases "sendToSpecificAddresses cl (formatRedditPost toUTCString post)
                 (getSubscribersForSubreddit subreddit m) m3") auto
  have r: "r = (case conversations_list cl of None \<Rightarrow> Inl TransportError | Some cs \<Rightarrow> Inr ())"
    using sendToSpecificAddresses_result
            [of cl "formatRedditPost toUTCString post" "getSubscribersForSubreddit subreddit m" m3] s
    by simp
  have "userSubscriptions m4 = userSubscriptions m3"
    using sendToSpecificAddresses_subscriptions
            [of cl "formatRedditPost toUTCString post" "getSubscribersForSubreddit subreddit m" m3] s
    by simp
  then have u: "userSubscriptions m4 = userSubscriptions m"
    by (simp add: m3_def)
  have d: "disk m4 = disk m3"
    using sendToSpecificAddresses_disk
            [of cl "formatRedditPost toUTCString post" "getSubscribersForSubreddit subreddit m" m3] s
    by simp
  have eq: "res =
     (if has (post_id post) seen then (Inr False, m)
      else if getSubscribersForSubreddit subreddit m = []
           then (Inr False, say (NoSubscribers subreddit) m3)
           else (case r of Inl e \<Rightarrow> (Inl e, m4) | Inr u \<Rightarrow> (Inr True, m4)))"
    unfolding res_def sendRedditPostToSubscribers_eq seen_def [symmetric] Let_def
      m3_def [symmetric]
    using s by simp
  show "fst res =
           (if has (post_id post) seen \<or> getSubscribersForSubreddit subreddit m = []
            then Inr False
            else (case conversations_list cl of
                    None \<Rightarrow> Inl TransportError | Some cs \<Rightarrow> Inr True))"
    unfolding eq using r by (simp split: option.splits)
  show "userSubscriptions (snd res) = userSubscriptions m"
    unfolding eq using u by (simp add: m3_def split: sum.splits)
  show "disk (snd res) =
           (if has (post_id post) seen then disk m
            else disk (saveUserData ok
                         (m\<lparr>seenPostsBySubreddit :=
                              map_set (toLowerCase subreddit) (snd (add (post_id post) seen))
                                (seenPostsBySubreddit m)\<rparr>)))"
    unfolding eq using d by (simp add: m3_def split: sum.splits)
qed

lemma send_independent_of_save:
  "fst (sendRedditPostToSubscribers toUTCString ok cl post subreddit m)
   = fst (sendRedditPostToSubscribers toUTCString ok' cl post subreddit m)
   \<and> memory (snd (sendRedditPostToSubscribers toUTCString ok cl post subreddit m))
     = memory (snd (sendRedditPostToSubscribers toUTCString ok' cl post subreddit m))"
  by (simp add: after_send(1,2) seen_after_send memory_def)

lemma send_failed_disk:
  "disk (snd (sendRedditPostToSubscribers toUTCString False cl post subreddit m)) = disk m"
  by (simp add: after_send(3) saveUserData_failed)

lemma send_marks_seen:
  "\<exists>seen. map_get (toLowerCase subreddit)
             (seenPostsBySubreddit
                (snd (sendRedditPostToSubscribers toUTCString ok cl post subreddit m)))
           = Some seen \<and> has (post_id post) seen"
proof -
  define seen where
    "seen = (case map_get (toLowerCase subreddit) (seenPostsBySubreddit m) of
               Some s \<Rightarrow> s | None \<Rightarrow> new_FifoSet 50)"
  have after: "seenPostsBySubreddit
                 (snd (sendRedditPostToSubscribers toUTCString ok cl post subreddit m)) =
               (if has (post_id post) seen then seenPostsBySubreddit m
                else map_set (toLowerCase subreddit) (snd (add (post_id post) seen))
                       (seenPostsBySubreddit m))"
    by (simp add: seen_after_send seen_def Let_def)
  show ?thesis
  proof (cases "has (post_id post) seen")
    case True
    then have "map_get (toLowerCase subreddit) (seenPostsBySubreddit m) = Some seen"
      unfolding seen_def
      by (cases "map_get (toLowerCase subreddit) (seenPostsBySubreddit m)")
         (simp_all add: has_def set_has_def new_FifoSet_def)
    with True after show ?thesis by simp
  next
    case False
    with after show ?thesis by (simp add: map_get_map_set has_after_add)
  qed
qed

lemma seen_post_not_sent:
  assumes "map_get (toLowerCase subreddit) (seenPostsBySubreddit m) = Some seen"
    and "has (post_id post) seen"
  shows "sendRedditPostToSubscribers toUTCString ok cl post subreddit m = (Inr False, m)"
  using assms by (simp add: sendRedditPostToSubscribers_eq)

lemma no_subscribers_not_sent:
  assumes "getSubscribersForSubreddit subreddit m = []"
  shows "fst (sendRedditPostToSubscribers toUTCString ok cl post subreddit m) = Inr False"
  using assms by (simp add: sendRedditPostToSubscribers_eq Let_def)

lemma seen_registry_call [simp]:
  "seenPostsBySubreddit (snd (registry_call p m)) = seenPostsBySubreddit m"
  by (cases p) (simp_all add: registry_eqs Let_def split: option.splits)

lemma seen_registry_steps [simp]:
  "seenPostsBySubreddit (registry_steps ps m) = seenPostsBySubreddit m"
  by (induction ps arbitrary: m) simp_all

text \<open>
  C6. A call of \<open>sendRedditPostToSubscribers\<close> for a topic without subscribers returns
  not sent, and the id of the post is then a member of the seen posts of the topic; after
  any calls that change the subscriptions, a call for the same topic (in any case of its
  letters) and the same id returns not sent and changes nothing.
\<close>

theorem unsent_post_is_seen:
  assumes "getSubscribersForSubreddit subreddit m = []"
    and "toLowerCase subreddit' = toLowerCase subreddit"
    and "m1 = snd (sendRedditPostToSubscribers toUTCString ok cl post subreddit m)"
    and "m2 = registry_steps ps m1"
  shows "fst (sendRedditPostToSubscribers toUTCString ok cl post subreddit m) = Inr False
       \<and> (\<exists>seen. map_get (toLowerCase subreddit) (seenPostsBySubreddit m1) = Some seen
                  \<and> has (post_id post) seen)
       \<and> sendRedditPostToSubscribers toUTCString' ok' cl' post subreddit' m2 = (Inr False, m2)"
proof -
  from send_marks_seen [of subreddit toUTCString ok cl post m] assms(3)
  obtain seen where seen: "map_get (toLowerCase subreddit) (seenPostsBySubreddit m1) = Some seen"
    "has (post_id post) seen"
    by blast
  then have "map_get (toLowerCase subreddit') (seenPostsBySubreddit m2) = Some seen"
    using assms(2,4) by simp
  then have "sendRedditPostToSubscribers toUTCString' ok' cl' post subreddit' m2 = (Inr False, m2)"
    using seen(2) by (rule seen_post_not_sent)
  with seen no_subscribers_not_sent [OF assms(1)] show ?thesis by blast
qed

theorem unsent_post_is_seen_witness:
  "getSubscribersForSubreddit ''GoLang''
     \<lparr>seenPostsBySubreddit = [], userSubscriptions = [], disk = NoFile,
      console = [], outbox = []\<rparr> = []
   \<and> toLowerCase ''golang'' = toLowerCase ''GoLang''
   \<and> fst (sendRedditPostToSubscribers id True \<lparr>conversations_list = Some []\<rparr>
            \<lparr>post_id = ''t3_a'', title = ''T'', link = ''l'', contentSnippet = '''',
             pubDate = None, author = ''ann''\<rparr> ''GoLang''
            \<lparr>seenPostsBySubreddit = [], userSubscriptions = [], disk = NoFile,
             console = [], outbox = []\<rparr>) = Inr False
   \<and> fst (sendRedditPostToSubscribers id True \<lparr>conversations_list = Some []\<rparr>
            \<lparr>post_id = ''t3_a'', title = ''T'', link = ''l'', contentSnippet = '''',
             pubDate = None, author = ''ann''\<rparr> ''golang''
            (registry_steps [Subscribe True ''0xABC'' ''golang'']
               (snd (sendRedditPostToSubscribers id True \<lparr>conversations_list = Some []\<rparr>
                  \<lparr>post_id = ''t3_a'', title = ''T'', link = ''l'', contentSnippet = '''',
                   pubDate = None, author = ''ann''\<rparr> ''GoLang''
                  \<lparr>seenPostsBySubreddit = [], userSubscriptions = [], disk = NoFile,
                   console = [], outbox = []\<rparr>)))) = Inr False"
proof -
  let ?m = "\<lparr>seenPostsBySubreddit = [], userSubscriptions = [], disk = NoFile,
             console = [], outbox = []\<rparr>"
  have h1: "getSubscribersForSubreddit ''GoLang'' ?m = []"
    by (simp add: getSubscribersForSubreddit_def)
  have h2: "toLowerCase ''golang'' = toLowerCase ''GoLang''"
    by (simp add: lower_simps)
  from unsent_post_is_seen [OF h1 h2 refl refl,
      of id True "\<lparr>conversations_list = Some []\<rparr>"
         "\<lparr>post_id = ''t3_a'', title = ''T'', link = ''l'', contentSnippet = '''',
           pubDate = None, author = ''ann''\<rparr>"
         id True "\<lparr>conversations_list = Some []\<rparr>"
         "[Subscribe True ''0xABC'' ''golang'']"]
       h1 h2
  show ?thesis by simp
qed

subsection \<open>The result of a call does not depend on its save\<close>

text \<open>
  C9. A call that changes the subscriptions returns the same result and leaves the same
  two maps whether its save fails or succeeds, and so does a call that offers a post. When
  the save fails the file is left as it was and the failure is written to the console; if
  the call changed the subscriptions, a file that held the document of the maps before the
  call no longer does, and the next save that succeeds writes the document of the maps as
  they are.
\<close>

theorem failed_save_keeps_mutation:
  "fst (registry_call (with_save False p) m) = fst (registry_call (with_save True p) m)
   \<and> memory (snd (registry_call (with_save False p) m))
     = memory (snd (registry_call (with_save True p) m))
   \<and> disk (snd (registry_call (with_save False p) m)) = disk m
   \<and> (fst (registry_call (with_save False p) m) \<longrightarrow>
        memory (snd (registry_call (with_save False p) m)) \<noteq> memory m
        \<and> SaveFailed IOError \<in> set (console (snd (registry_call (with_save False p) m)))
        \<and> (disk m = File (Json (snapshot m)) \<longrightarrow>
             disk (snd (registry_call (with_save False p) m))
             \<noteq> File (Json (snapshot (snd (registry_call (with_save False p) m))))
             \<and> disk (saveUserData True (snd (registry_call (with_save False p) m)))
               = File (Json (snapshot (snd (registry_call (with_save False p) m))))))
   \<and> fst (sendRedditPostToSubscribers toUTCString False cl post subreddit m)
     = fst (sendRedditPostToSubscribers toUTCString True cl post subreddit m)
   \<and> memory (snd (sendRedditPostToSubscribers toUTCString False cl post subreddit m))
     = memory (snd (sendRedditPostToSubscribers toUTCString True cl post subreddit m))
   \<and> disk (snd (sendRedditPostToSubscribers toUTCString False cl post subreddit m)) = disk m"
proof (intro conjI impI)
  let ?m' = "snd (registry_call (with_save False p) m)"
  show "fst (registry_call (with_save False p) m) = fst (registry_call (with_save True p) m)"
    using with_save_call by blast
  show "memory ?m' = memory (snd (registry_call (with_save True p) m))"
    using with_save_call by blast
  show d: "disk ?m' = disk m" by (rule failed_call_disk)
  {
    assume r: "fst (registry_call (with_save False p) m)"
    then have ch: "userSubscriptions ?m' \<noteq> userSubscriptions m"
      by (rule registry_call_changes)
    then show "memory ?m' \<noteq> memory m" by (simp add: memory_def)
    from r show "SaveFailed IOError \<in> set (console ?m')" by (rule failed_call_console)
    assume f: "disk m = File (Json (snapshot m))"
    from ch have "snapshot ?m' \<noteq> snapshot m" by (rule snapshot_differs)
    with d f show "disk ?m' \<noteq> File (Json (snapshot ?m'))" by simp
    from d f have "disk ?m' \<noteq> NoDirectory" by simp
    then show "disk (saveUserData True ?m') = File (Json (snapshot ?m'))"
      by (rule saveUserData_done)
  }
  show "fst (sendRedditPostToSubscribers toUTCString False cl post subreddit m)
        = fst (sendRedditPostToSubscribers toUTCString True cl post subreddit m)"
    using send_independent_of_save by blast
  show "memory (snd (sendRedditPostToSubscribers toUTCString False cl post subreddit m))
        = memory (snd (sendRedditPostToSubscribers toUTCString True cl post subreddit m))"
    using send_independent_of_save by blast
  show "disk (snd (sendRedditPostToSubscribers toUTCString False cl post subreddit m)) = disk m"
    by (rule send_failed_disk)
qed

theorem failed_save_keeps_mutation_witness:
  "registry_call (Subscribe False ''0xABC'' ''golang'')
     \<lparr>seenPostsBySubreddit = [], userSubscriptions = [],
      disk = File (Json \<lparr>subscriptions = Some [], seenPosts = Some []\<rparr>),
      console = [], outbox = []\<rparr>
   = (True, \<lparr>seenPostsBySubreddit = [], userSubscriptions = [(''0xabc'', [''golang''])],
             disk = File (Json \<lparr>subscriptions = Some [], seenPosts = Some []\<rparr>),
             console = [SaveFailed IOError, Subscribed ''0xABC'' ''golang''], outbox = []\<rparr>)
   \<and> fst (registry_call (Subscribe True ''0xABC'' ''golang'')
       \<lparr>seenPostsBySubreddit = [], userSubscriptions = [],
        disk = File (Json \<lparr>subscriptions = Some [], seenPosts = Some []\<rparr>),
        console = [], outbox = []\<rparr>)
   \<and> memory (snd (registry_call (Subscribe True ''0xABC'' ''golang'')
       \<lparr>seenPostsBySubreddit = [], userSubscriptions = [],
        disk = File (Json \<lparr>subscriptions = Some [], seenPosts = Some []\<rparr>),
        console = [], outbox = []\<rparr>))
     = ([(''0xabc'', [''golang''])], [])
   \<and> File (Json \<lparr>subscriptions = Some [], seenPosts = Some []\<rparr>)
     \<noteq> File (Json (snapshot
          \<lparr>seenPostsBySubreddit = [], userSubscriptions = [(''0xabc'', [''golang''])],
           disk = File (Json \<lparr>subscriptions = Some [], seenPosts = Some []\<rparr>),
           console = [SaveFailed IOError, Subscribed ''0xABC'' ''golang''], outbox = []\<rparr>))
   \<and> disk (saveUserData True
          \<lparr>seenPostsBySubreddit = [], userSubscriptions = [(''0xabc'', [''golang''])],
           disk = File (Json \<lparr>subscriptions = Some [], seenPosts = Some []\<rparr>),
           console = [SaveFailed IOError, Subscribed ''0xABC'' ''golang''], outbox = []\<rparr>)
     = File (Json \<lparr>subscriptions = Some [(''0xabc'', Strings [''golang''])], seenPosts = Some []\<rparr>)"
proof -
  let ?m = "\<lparr>seenPostsBySubreddit = [], userSubscriptions = [],
             disk = File (Json \<lparr>subscriptions = Some [], seenPosts = Some []\<rparr>),
             console = [], outbox = []\<rparr>"
  have call: "registry_call (Subscribe False ''0xABC'' ''golang'') ?m
     = (True, \<lparr>seenPostsBySubreddit = [], userSubscriptions = [(''0xabc'', [''golang''])],
             disk = File (Json \<lparr>subscriptions = Some [], seenPosts = Some []\<rparr>),
             console = [SaveFailed IOError, Subscribed ''0xABC'' ''golang''], outbox = []\<rparr>)"
    by (simp add: subscribeToSubreddit_def Let_def map_has_def map_get_def set_has_def
        set_add_def saveUserData_def writeFileSync_def say_def lower_simps)
  have synced: "disk ?m = File (Json (snapshot ?m))"
    by (simp add: snapshot_def)
  have wF: "with_save False (Subscribe False ''0xABC'' ''golang'') = Subscribe False ''0xABC'' ''golang''"
    and wT: "with_save True (Subscribe False ''0xABC'' ''golang'') = Subscribe True ''0xABC'' ''golang''"
    by simp_all
  note t = failed_save_keeps_mutation
             [of "Subscribe False ''0xABC'' ''golang''" ?m id "\<lparr>conversations_list = None\<rparr>"
                 "\<lparr>post_id = ''t3_a'', title = ''T'', link = ''l'', contentSnippet = [],
                   pubDate = None, author = ''ann''\<rparr>" "''golang''",
              unfolded wF wT call]
  have c2: "fst (registry_call (Subscribe True ''0xABC'' ''golang'') ?m)"
    using t [THEN conjunct1] by simp
  have c3: "memory (snd (registry_call (Subscribe True ''0xABC'' ''golang'') ?m))
            = ([(''0xabc'', [''golang''])], [])"
    using t [THEN conjunct2, THEN conjunct1, symmetric] by (simp add: memory_def)
  have c45: "File (Json \<lparr>subscriptions = Some [], seenPosts = Some []\<rparr>)
     \<noteq> File (Json (snapshot
          \<lparr>seenPostsBySubreddit = [], userSubscriptions = [(''0xabc'', [''golang''])],
           disk = File (Json \<lparr>subscriptions = Some [], seenPosts = Some []\<rparr>),
           console = [SaveFailed IOError, Subscribed ''0xABC'' ''golang''], outbox = []\<rparr>))
   \<and> disk (saveUserData True
          \<lparr>seenPostsBySubreddit = [], userSubscriptions = [(''0xabc'', [''golang''])],
           disk = File (Json \<lparr>subscriptions = Some [], seenPosts = Some []\<rparr>),
           console = [SaveFailed IOError, Subscribed ''0xABC'' ''golang''], outbox = []\<rparr>)
     = File (Json \<lparr>subscriptions = Some [(''0xabc'', Strings [''golang''])], seenPosts = Some []\<rparr>)"
    using t [THEN conjunct2, THEN conjunct2, THEN conjunct2, THEN conjunct1] synced
    by (simp add: snapshot_def)
  from call c2 c3 c45 show ?thesis by blast
qed

subsection \<open>Lower case\<close>

lemma list_all_removeAll: "list_all P xs \<Longrightarrow> list_all P (removeAll x xs)"
  by (simp add: list_all_iff)

lemma stored_lowercase_subscribe:
  assumes "stored_lowercase m"
  shows "stored_lowercase (snd (subscribeToSubreddit ok a t m))"
proof -
  let ?P = "\<lambda>(address, userSubs). is_lower address \<and> list_all is_lower userSubs"
  define subs where
    "subs = (case map_get (toLowerCase a) (userSubscriptions m) of Some s \<Rightarrow> s | None \<Rightarrow> [])"
  have all: "list_all ?P (userSubscriptions m)"
    using assms by (simp add: stored_lowercase_def)
  have "list_all is_lower subs"
  proof (cases "map_get (toLowerCase a) (userSubscriptions m)")
    case None
    then show ?thesis by (simp add: subs_def)
  next
    case (Some s)
    from list_all_map_get [OF all Some] show ?thesis by (simp add: subs_def Some)
  qed
  then have "?P (toLowerCase a, subs @ [toLowerCase t])"
    by (simp add: is_lower_toLowerCase)
  with all have "list_all ?P (map_set (toLowerCase a) (subs @ [toLowerCase t]) (userSubscriptions m))"
    by (rule list_all_map_set)
  then show ?thesis
    using assms
    by (simp add: subscribeToSubreddit_eq Let_def subs_def [symmetric] stored_lowercase_def)
qed

lemma stored_lowercase_unsubscribe:
  assumes "stored_lowercase m"
  shows "stored_lowercase (snd (unsubscribeFromSubreddit ok a t m))"
proof (cases "map_get (toLowerCase a) (userSubscriptions m)")
  case None
  with assms show ?thesis by (simp add: unsubscribeFromSubreddit_eq)
next
  case (Some subs)
  let ?P = "\<lambda>(address, userSubs). is_lower address \<and> list_all is_lower userSubs"
  have all: "list_all ?P (userSubscriptions m)"
    using assms by (simp add: stored_lowercase_def)
  from list_all_map_get [OF all Some]
  have "?P (toLowerCase a, removeAll (toLowerCase t) subs)"
    by (simp add: list_all_removeAll)
  with all have "list_all ?P (map_set (toLowerCase a) (removeAll (toLowerCase t) subs)
                                (userSubscriptions m))"
    by (rule list_all_map_set)
  moreover from all have "list_all ?P (map_delete (toLowerCase a) (userSubscriptions m))"
    by (rule list_all_map_delete)
  ultimately show ?thesis
    using assms Some by (simp add: unsubscribeFromSubreddit_eq stored_lowercase_def)
qed

lemma stored_lowercase_unsubscribe_all:
  assumes "stored_lowercase m"
  shows "stored_lowercase (snd (unsubscribeFromAllSubreddits ok a m))"
  using assms
  by (simp add: unsubscribeFromAllSubreddits_eq stored_lowercase_def list_all_map_delete
      split: option.splits)

lemma stored_lowercase_registry_steps:
  "stored_lowercase m \<Longrightarrow> stored_lowercase (registry_steps ps m)"
proof (induction ps arbitrary: m)
  case Nil
  then show ?case by simp
next
  case (Cons p ps)
  have "stored_lowercase (snd (registry_call p m))"
    using Cons.prems
    by (cases p) (simp_all add: stored_lowercase_subscribe stored_lowercase_unsubscribe
        stored_lowercase_unsubscribe_all)
  then show ?case using Cons.IH by simp
qed

lemma stored_lowercase_send:
  assumes "stored_lowercase m"
  shows "stored_lowercase (snd (sendRedditPostToSubscribers toUTCString ok cl post subreddit m))"
proof -
  let ?m' = "snd (sendRedditPostToSubscribers toUTCString ok cl post subreddit m)"
  let ?Q = "\<lambda>(subreddit, seen :: string FifoSet). is_lower subreddit"
  have subs: "userSubscriptions ?m' = userSubscriptions m"
    by (rule after_send(2))
  have "list_all ?Q (seenPostsBySubreddit m)"
    using assms by (simp add: stored_lowercase_def)
  then have "list_all ?Q (seenPostsBySubreddit ?m')"
    by (simp add: seen_after_send Let_def list_all_map_set is_lower_toLowerCase)
  with subs assms show ?thesis by (simp add: stored_lowercase_def)
qed

lemma count_keys_absent:
  "k \<notin> set (map fst m) \<Longrightarrow> count_list (map fst (filter P m)) k = 0"
  by (induction m) auto

lemma count_keys_present:
  assumes "distinct (map fst m)" and "map_get k m = Some v" and "P (k, v)"
  shows "count_list (map fst (filter P m)) k = 1"
  using assms
proof (induction m)
  case Nil
  then show ?case by (simp add: map_get_def)
next
  case (Cons e m)
  show ?case
  proof (cases "fst e = k")
    case True
    with Cons.prems have "e = (k, v)" and "k \<notin> set (map fst m)"
      by (auto simp: map_get_def)
    with Cons.prems(3) count_keys_absent [of k m P] show ?thesis by simp
  next
    case False
    with Cons.prems have "map_get k m = Some v" and "distinct (map fst m)"
      by (auto simp: map_get_def)
    with Cons.IH Cons.prems(3) False show ?thesis by simp
  qed
qed

lemma subscribed_afterwards:
  "\<exists>subs. map_get (toLowerCase a) (userSubscriptions (snd (subscribeToSubreddit ok a t m)))
           = Some subs \<and> toLowerCase t \<in> set subs"
proof -
  define subs where
    "subs = (case map_get (toLowerCase a) (userSubscriptions m) of Some s \<Rightarrow> s | None \<Rightarrow> [])"
  show ?thesis
  proof (cases "toLowerCase t \<in> set subs")
    case True
    then have "map_get (toLowerCase a) (userSubscriptions m) = Some subs"
      unfolding subs_def by (cases "map_get (toLowerCase a) (userSubscriptions m)") simp_all
    with True show ?thesis
      by (simp add: subscribeToSubreddit_eq Let_def subs_def [symmetric])
  next
    case False
    then show ?thesis
      by (simp add: subscribeToSubreddit_eq Let_def subs_def [symmetric] map_get_map_set)
  qed
qed

lemma distinct_keys_subscribe:
  "distinct (map fst (userSubscriptions m)) \<Longrightarrow>
   distinct (map fst (userSubscriptions (snd (subscribeToSubreddit ok a t m))))"
  by (simp add: subscribeToSubreddit_eq Let_def distinct_keys_map_set)

lemma subscriber_listed_once:
  assumes "distinct (map fst (userSubscriptions m))"
    and "toLowerCase t' = toLowerCase t"
  shows "count_list (getSubscribersForSubreddit t' (snd (subscribeToSubreddit ok a t m)))
           (toLowerCase a) = 1"
proof -
  let ?m' = "snd (subscribeToSubreddit ok a t m)"
  from subscribed_afterwards [of a ok t m] obtain subs
    where subs: "map_get (toLowerCase a) (userSubscriptions ?m') = Some subs"
      "toLowerCase t \<in> set subs"
    by blast
  have d: "distinct (map fst (userSubscriptions ?m'))"
    using assms(1) by (rule distinct_keys_subscribe)
  have "count_list
          (map fst (filter (\<lambda>(address, userSubs). set_has (toLowerCase t) userSubs)
                      (userSubscriptions ?m')))
          (toLowerCase a) = 1"
    using d subs(1) by (rule count_keys_present) (simp add: set_has_def subs(2))
  then show ?thesis
    by (simp add: getSubscribersForSubreddit_def assms(2))
qed

lemma subscribe_scenario:
  assumes "distinct (map fst (userSubscriptions m))"
  shows "(\<exists>subs. map_get ''0xabc''
                   (userSubscriptions (snd (subscribeToSubreddit ok ''0xABC'' ''golang'' m)))
                 = Some subs \<and> ''golang'' \<in> set subs)
       \<and> count_list (getSubscribersForSubreddit ''GoLang''
                       (snd (subscribeToSubreddit ok ''0xABC'' ''golang'' m))) ''0xabc'' = 1"
proof -
  have a: "toLowerCase ''0xABC'' = ''0xabc''" and t: "toLowerCase ''golang'' = ''golang''"
    and t': "toLowerCase ''GoLang'' = toLowerCase ''golang''"
    by (simp_all add: lower_simps)
  from subscribed_afterwards [of "''0xABC''" ok "''golang''" m]
       subscriber_listed_once [OF assms t', of ok "''0xABC''"]
  show ?thesis by (simp only: a t)
qed

lemma set_set_of_array_aux: "set (foldl (\<lambda>s x. set_add x s) acc xs) = set acc \<union> set xs"
  by (induction xs arbitrary: acc) (auto simp: set_add_def set_has_def)

lemma list_all_set_of_array: "list_all P xs \<Longrightarrow> list_all P (set_of_array xs)"
  by (simp add: set_of_array_def list_all_iff set_set_of_array_aux)

lemma stored_lowercase_load_subscriptions:
  assumes "stored_lowercase m"
    and "list_all (\<lambda>(address, v). case v of Strings topics \<Rightarrow> list_all is_lower topics
                                     | Null \<Rightarrow> True
                                     | Other \<Rightarrow> True) entries"
  shows "stored_lowercase (snd (load_subscriptions entries m))"
  using assms
proof (induction entries arbitrary: m)
  case Nil
  then show ?case by simp
next
  case (Cons e entries)
  obtain address v where e: "e = (address, v)" by (cases e)
  show ?case
  proof (cases v)
    case Other
    with e Cons.prems(1) show ?thesis by (simp add: Let_def)
  next
    case Null
    have "stored_lowercase
            (m\<lparr>userSubscriptions := map_set (toLowerCase address) [] (userSubscriptions m)\<rparr>)"
      using Cons.prems(1)
      by (auto simp: stored_lowercase_def is_lower_toLowerCase intro!: list_all_map_set)
    moreover from Cons.prems(2)
    have "list_all (\<lambda>(address, v). case v of Strings topics \<Rightarrow> list_all is_lower topics
                                    | Null \<Rightarrow> True
                                    | Other \<Rightarrow> True) entries"
      by simp
    ultimately show ?thesis using Cons.IH e Null by (simp add: Let_def)
  next
    case (Strings topics)
    with e Cons.prems(2) have low: "list_all is_lower topics" by simp
    have "stored_lowercase
            (m\<lparr>userSubscriptions :=
                 map_set (toLowerCase address) (set_of_array topics) (userSubscriptions m)\<rparr>)"
      using Cons.prems(1) low
      by (auto simp: stored_lowercase_def is_lower_toLowerCase list_all_set_of_array
          intro!: list_all_map_set)
    moreover from Cons.prems(2)
    have "list_all (\<lambda>(address, v). case v of Strings topics \<Rightarrow> list_all is_lower topics
                                    | Null \<Rightarrow> True
                                    | Other \<Rightarrow> True) entries"
      by simp
    ultimately show ?thesis using Cons.IH e Strings by (simp add: Let_def)
  qed
qed

lemma stored_lowercase_load_seenPosts:
  assumes "stored_lowercase m"
  shows "stored_lowercase (snd (load_seenPosts entries m))"
  using assms
proof (induction entries arbitrary: m)
  case Nil
  then show ?case by simp
next
  case (Cons e entries)
  obtain subreddit v where e: "e = (subreddit, v)" by (cases e)
  show ?case
  proof (cases v)
    case Other
    with e Cons.prems show ?thesis by (simp add: Let_def)
  next
    case Null
    with e Cons.prems show ?thesis by (simp add: Let_def)
  next
    case (Strings ids)
    have "stored_lowercase
            (m\<lparr>seenPostsBySubreddit :=
                 map_set (toLowerCase subreddit) (deserialize ids 1000)
                   (seenPostsBySubreddit m)\<rparr>)"
      using Cons.prems
      by (auto simp: stored_lowercase_def is_lower_toLowerCase intro!: list_all_map_set)
    then show ?thesis using Cons.IH e Strings by (simp add: Let_def)
  qed
qed

text \<open>
  Loading a document whose subscription topics are in lower case gives a registry in
  lower case, whatever the case of the keys of the document.
\<close>

lemma stored_lowercase_loadUserData_try:
  assumes "stored_lowercase m" and "topics_lowercase (disk m)"
  shows "stored_lowercase (snd (loadUserData_try io m))"
proof (cases "disk m")
  case NoDirectory
  with assms(1) show ?thesis
    by (simp add: loadUserData_try_def existsSync_dir_def existsSync_file_def mkdirSync_def
        writeFileSync_def Let_def stored_lowercase_def)
next
  case NoFile
  with assms(1) show ?thesis
    by (simp add: loadUserData_try_def existsSync_dir_def existsSync_file_def
        writeFileSync_def Let_def stored_lowercase_def)
next
  case (File content)
  show ?thesis
  proof (cases content)
    case Unparsable
    with File assms(1) show ?thesis
      by (simp add: loadUserData_try_def existsSync_dir_def existsSync_file_def
          readFileSync_def JSON_parse_def Let_def stored_lowercase_def)
  next
    case JsonNull
    with File assms(1) show ?thesis
      by (simp add: loadUserData_try_def existsSync_dir_def existsSync_file_def
          readFileSync_def JSON_parse_def Let_def stored_lowercase_def)
  next
    case (Json d)
    let ?m1 = "m\<lparr>disk := File (Json d)\<rparr>"
    let ?r2 = "case subscriptions d of None \<Rightarrow> (None, ?m1)
               | Some entries \<Rightarrow> load_subscriptions entries ?m1"
    have m1: "stored_lowercase ?m1"
      using assms(1) by (simp add: stored_lowercase_def)
    have r2: "stored_lowercase (snd ?r2)"
      using m1 assms(2) File Json
      by (auto simp: topics_lowercase_def stored_lowercase_load_subscriptions
          split: option.splits)
    have r3: "stored_lowercase
                (snd (case seenPosts d of None \<Rightarrow> (None, snd ?r2)
                      | Some entries \<Rightarrow> load_seenPosts entries (snd ?r2)))"
      using r2 by (auto simp: stored_lowercase_load_seenPosts split: option.splits)
    have "stored_lowercase
            (snd (and_then ?r2
               (\<lambda>m2. and_then
                  (case seenPosts d of None \<Rightarrow> (None, m2)
                   | Some entries \<Rightarrow> load_seenPosts entries m2)
                  (\<lambda>m3. (None, say (Loaded (length (userSubscriptions m3))
                                    (length (seenPostsBySubreddit m3))) m3)))))"
      using r2 r3
      by (auto simp: snd_and_then stored_lowercase_def split: option.splits)
    then show ?thesis
      using File Json m1
      by (simp add: loadUserData_try_def existsSync_dir_def existsSync_file_def
          readFileSync_def JSON_parse_def Let_def)
  qed
qed

lemma stored_lowercase_new_ConversationManager:
  assumes "topics_lowercase fs"
  shows "\<exists>m'. new_ConversationManager io fs = Inr m' \<and> stored_lowercase m'"
proof -
  let ?m0 = "\<lparr>seenPostsBySubreddit = [], userSubscriptions = [], disk = fs,
              console = [], outbox = []\<rparr>"
  have "stored_lowercase ?m0" by (simp add: stored_lowercase_def)
  moreover have "topics_lowercase (disk ?m0)" using assms by simp
  ultimately have "stored_lowercase (snd (loadUserData_try io ?m0))"
    by (rule stored_lowercase_loadUserData_try)
  then show ?thesis
    by (simp add: new_ConversationManager_def loadUserData_returns stored_lowercase_def
        split: option.splits)
qed

text \<open>
  C5. The loader puts the address of a subscription and the topic of a list of seen posts
  in lower case, and takes the topics of a subscription as the file has them. After
  loading a file that names a topic with capital letters, a topic that is not in lower
  case is stored, and the subscriber is not found under the topic.
\<close>

theorem load_keeps_topic_case:
  "new_ConversationManager \<lparr>mkdir_ok = True, write_ok = True, read_ok = True\<rparr>
     (File (Json \<lparr>subscriptions = Some [(''0xABC'', Strings [''GoLang''])],
                  seenPosts = Some [(''GoLang'', Strings [''t3_a''])]\<rparr>))
   = Inr \<lparr>seenPostsBySubreddit = [(''golang'', \<lparr>items = [''t3_a''], maxCapacity = 1000\<rparr>)],
          userSubscriptions = [(''0xabc'', [''GoLang''])],
          disk = File (Json \<lparr>subscriptions = Some [(''0xABC'', Strings [''GoLang''])],
                             seenPosts = Some [(''GoLang'', Strings [''t3_a''])]\<rparr>),
          console = [Loaded 1 1], outbox = []\<rparr>
   \<and> \<not> stored_lowercase
        \<lparr>seenPostsBySubreddit = [(''golang'', \<lparr>items = [''t3_a''], maxCapacity = 1000\<rparr>)],
         userSubscriptions = [(''0xabc'', [''GoLang''])],
         disk = File (Json \<lparr>subscriptions = Some [(''0xABC'', Strings [''GoLang''])],
                            seenPosts = Some [(''GoLang'', Strings [''t3_a''])]\<rparr>),
         console = [Loaded 1 1], outbox = []\<rparr>
   \<and> getSubscribersForSubreddit ''GoLang''
        \<lparr>seenPostsBySubreddit = [(''golang'', \<lparr>items = [''t3_a''], maxCapacity = 1000\<rparr>)],
         userSubscriptions = [(''0xabc'', [''GoLang''])],
         disk = File (Json \<lparr>subscriptions = Some [(''0xABC'', Strings [''GoLang''])],
                            seenPosts = Some [(''GoLang'', Strings [''t3_a''])]\<rparr>),
         console = [Loaded 1 1], outbox = []\<rparr> = []"
  by (simp add: load_defs stored_lowercase_def is_lower_def getSubscribersForSubreddit_def
      lower_simps)

end
